theory Spec2Isabelle
  imports Main "HOL-Library.Char_ord" "HOL-Library.List_Lexorder" "HOL-Library.Sublist"
    "HOL-Library.AList"
begin

section \<open>Strings as the script uses them\<close>

text \<open>
  The script \<^verbatim>\<open>data/download_attention.py\<close> works on Python strings. They are modelled as
  \<^typ>\<open>string\<close>, one \<^typ>\<open>char\<close> per code point, for ASCII text: \<open>py_lower\<close> and \<open>py_upper\<close>
  change the 26 ASCII letters only, \<open>isspace\<close> is Python's ASCII white space and \<open>isdigit\<close>
  (the class \<^verbatim>\<open>\d\<close>) the ten ASCII digits. Code points beyond ASCII are outside the model.
\<close>

definition upper_letters :: string where
  "upper_letters = ''ABCDEFGHIJKLMNOPQRSTUVWXYZ''"

definition lower_letters :: string where
  "lower_letters = ''abcdefghijklmnopqrstuvwxyz''"

definition lower_char :: "char \<Rightarrow> char" where
  "lower_char c = (case map_of (zip upper_letters lower_letters) c of Some d \<Rightarrow> d | None \<Rightarrow> c)"

definition upper_char :: "char \<Rightarrow> char" where
  "upper_char c = (case map_of (zip lower_letters upper_letters) c of Some d \<Rightarrow> d | None \<Rightarrow> c)"

text \<open>\<^verbatim>\<open>s.lower()\<close> and \<^verbatim>\<open>s.upper()\<close>.\<close>

definition py_lower :: "string \<Rightarrow> string" where
  "py_lower s = map lower_char s"

definition py_upper :: "string \<Rightarrow> string" where
  "py_upper s = map upper_char s"

text \<open>White space of \<^verbatim>\<open>str.strip()\<close>: tab, LF, VT, FF, CR, the separators 0x1C-0x1F, space.\<close>

definition isspace :: "char \<Rightarrow> bool" where
  "isspace c = (of_char c \<in> set [9, 10, 11, 12, 13, 28, 29, 30, 31, 32 :: nat])"

definition strip :: "string \<Rightarrow> string" where
  "strip s = rev (dropWhile isspace (rev (dropWhile isspace s)))"

definition isdigit :: "char \<Rightarrow> bool" where
  "isdigit c = (c \<in> set ''0123456789'')"

text \<open>The value of one ASCII digit, and \<^verbatim>\<open>int(...)\<close> of a string of digits.\<close>

definition digit_val :: "char \<Rightarrow> nat" where
  "digit_val c = of_char c - 48"

definition int_of_digits :: "string \<Rightarrow> nat" where
  "int_of_digits ds = foldl (\<lambda>n c. 10 * n + digit_val c) 0 ds"

text \<open>The format \<^verbatim>\<open>{n:02d}\<close>, for the two-digit numbers the pattern below can capture.\<close>

definition fmt_02d :: "nat \<Rightarrow> string" where
  "fmt_02d n = [char_of (48 + n div 10), char_of (48 + n mod 10)]"

text \<open>Truth value of an optional string: \<^verbatim>\<open>None\<close> and \<^verbatim>\<open>""\<close> are false.\<close>

definition truthy :: "string option \<Rightarrow> bool" where
  "truthy v = (case v of None \<Rightarrow> False | Some s \<Rightarrow> s \<noteq> [])"

section \<open>The subject tables\<close>

text \<open>
  \<^verbatim>\<open>S_TO_SUB = {"S1":"sub-06","S2":"sub-07","S3":"sub-04","S4":"sub-01"}\<close> and
  \<^verbatim>\<open>SUB_TO_S = {v:k for k,v in S_TO_SUB.items()}\<close>. A Python dict keeps insertion order, so
  both are association lists.
\<close>

definition S_TO_SUB :: "(string \<times> string) list" where
  "S_TO_SUB = [(''S1'', ''sub-06''), (''S2'', ''sub-07''), (''S3'', ''sub-04''), (''S4'', ''sub-01'')]"

definition SUB_TO_S :: "(string \<times> string) list" where
  "SUB_TO_S = map (\<lambda>(k, v). (v, k)) S_TO_SUB"

section \<open>The pattern of \<open>_normalize_sub_code\<close>\<close>

text \<open>
  \<^verbatim>\<open>re.search(r"sub[-_]?0?([1-9]\d?)", s)\<close>. An optional item is greedy: the matcher first
  tries with the character consumed and falls back to leaving it. \<open>re_optional\<close> lists the
  remaining inputs in that order, \<open>re_group\<close> matches the capturing group \<^verbatim>\<open>([1-9]\d?)\<close>,
  \<open>re_match_at\<close> is a match starting at the head of the input and \<open>re_search\<close> tries every
  start position from the left. Each returns the text of group 1.
\<close>

definition re_optional :: "(char \<Rightarrow> bool) \<Rightarrow> string \<Rightarrow> string list" where
  "re_optional P s = (case s of [] \<Rightarrow> [s] | c # cs \<Rightarrow> if P c then [cs, s] else [s])"

definition re_group :: "string \<Rightarrow> string option" where
  "re_group s =
     (case s of
        [] \<Rightarrow> None
      | d # ds \<Rightarrow>
          if d \<in> set ''123456789'' then
            (case ds of
               [] \<Rightarrow> Some [d]
             | e # es \<Rightarrow> if isdigit e then Some [d, e] else Some [d])
          else None)"

fun first_some :: "('a \<Rightarrow> 'b option) \<Rightarrow> 'a list \<Rightarrow> 'b option" where
  "first_some f [] = None"
| "first_some f (x # xs) = (case f x of Some y \<Rightarrow> Some y | None \<Rightarrow> first_some f xs)"

definition re_match_at :: "string \<Rightarrow> string option" where
  "re_match_at s =
     (if prefix ''sub'' s then
        first_some re_group
          (concat (map (re_optional (\<lambda>c. c = CHR ''0''))
             (re_optional (\<lambda>c. c = CHR ''-'' \<or> c = CHR ''_'') (drop 3 s))))
      else None)"

fun re_search :: "string \<Rightarrow> string option" where
  "re_search [] = re_match_at []"
| "re_search (c # cs) =
     (case re_match_at (c # cs) of Some g \<Rightarrow> Some g | None \<Rightarrow> re_search cs)"

text \<open>
  \<^verbatim>\<open>
  def _normalize_sub_code(s):
      s = s.strip().lower()
      m = re.search(r"sub[-_]?0?([1-9]\d?)", s)
      if not m: return None
      n = int(m.group(1))
      return f"sub-{n:02d}" if n in (1,4,6,7) else None
  \<close>
\<close>

definition normalize_sub_code :: "string \<Rightarrow> string option" where
  "normalize_sub_code s =
     (case re_search (py_lower (strip s)) of
        None \<Rightarrow> None
      | Some g \<Rightarrow>
          (let n = int_of_digits g
           in if n \<in> set [1, 4, 6, 7] then Some (''sub-'' @ fmt_02d n) else None))"

text \<open>
  \<^verbatim>\<open>
  def looks_like_attention_fmri(name):
      lo = name.lower()
      return lo.endswith(".h5") and ("attention" in lo) and ("vc" in lo)
  \<close>
\<close>

definition looks_like_attention_fmri :: "string \<Rightarrow> bool" where
  "looks_like_attention_fmri name =
     (let lo = py_lower name
      in suffix ''.h5'' lo \<and> sublist ''attention'' lo \<and> sublist ''vc'' lo)"

section \<open>Exceptions\<close>

text \<open>
  Every exception the script raises or lets through is a value. \<open>KeyError_target\<close> is the
  lookup error of \<open>main\<close> (target name, path of the file list, the targets it offers),
  \<open>KeyError\<close> a failed \<^verbatim>\<open>fi[key]\<close>, \<open>ValueError\<close> carries its message, \<open>URLError\<close> is a failed
  HTTP request for the given address, the other four are the operating system's, each with
  the path it is about.
\<close>

datatype exn =
    KeyError_target string string "string list"
  | KeyError string
  | ValueError string
  | URLError string
  | FileExistsError string
  | IsADirectoryError string
  | FileNotFoundError string
  | PermissionError string

section \<open>Choosing the subjects\<close>

text \<open>
  \<^verbatim>\<open>
  def select_subjects(specs):
      if not specs: return list(SUB_TO_S.keys())
      out = set()
      for s in specs:
          if s.upper() in S_TO_SUB: out.add(S_TO_SUB[s.upper()]); continue
          sub = _normalize_sub_code(s)
          if sub: out.add(sub); continue
          raise ValueError(f"Unrecognized subject: {s}")
      return sorted(out)
  \<close>
  \<open>select_loop\<close> is the \<^verbatim>\<open>for\<close> loop with the set \<open>out\<close> as its accumulator.
\<close>

fun select_loop :: "string list \<Rightarrow> string set \<Rightarrow> exn + string set" where
  "select_loop [] out = Inr out"
| "select_loop (s # ss) out =
     (case map_of S_TO_SUB (py_upper s) of
        Some v \<Rightarrow> select_loop ss (insert v out)
      | None \<Rightarrow>
          (let sub = normalize_sub_code s
           in if truthy sub then select_loop ss (insert (the sub) out)
              else Inl (ValueError (''Unrecognized subject: '' @ s))))"

definition select_subjects :: "string list \<Rightarrow> exn + string list" where
  "select_subjects specs =
     (if specs = [] then Inr (map fst SUB_TO_S)
      else (case select_loop specs {} of
              Inl e \<Rightarrow> Inl e
            | Inr out \<Rightarrow> Inr (sorted_list_of_set out)))"

section \<open>Catalog entries and their selection\<close>

text \<open>
  One element of the \<^verbatim>\<open>files\<close> array of the remote API: a JSON object, of which the script
  reads the keys \<^verbatim>\<open>name\<close>, \<^verbatim>\<open>download_url\<close>, \<^verbatim>\<open>url\<close>, \<^verbatim>\<open>supplied_url\<close> and \<^verbatim>\<open>md5\<close>
  (\<open>None\<close>: the key is absent), and to which it adds the keys \<^verbatim>\<open>__sub\<close> and \<^verbatim>\<open>__S\<close>.
\<close>

record entry =
  name :: "string option"
  download_url :: "string option"
  url :: "string option"
  supplied_url :: "string option"
  md5 :: "string option"
  sub_code :: "string option"
  short_code :: "string option"

text \<open>Python's \<^verbatim>\<open>a or b\<close> on optional strings: \<open>a\<close> when it is true, else \<open>b\<close>.\<close>

definition py_or :: "string option \<Rightarrow> string option \<Rightarrow> string option" where
  "py_or a b = (if truthy a then a else b)"

text \<open>\<^verbatim>\<open>d.get(key, default)\<close>.\<close>

definition get_or :: "'a option \<Rightarrow> 'a \<Rightarrow> 'a" where
  "get_or v d = (case v of None \<Rightarrow> d | Some x \<Rightarrow> x)"

text \<open>
  The selection loop of \<open>main\<close>:
  \<^verbatim>\<open>
  chosen = []
  for fi in files:
      name = fi.get("name","")
      url  = fi.get("download_url") or fi.get("url") or fi.get("supplied_url")
      if not name or not url: continue
      if not looks_like_attention_fmri(name): continue
      sub = _normalize_sub_code(name)
      if sub and sub in wanted:
          fi["__sub"] = sub
          fi["__S"]   = SUB_TO_S.get(sub,"Sx")
          chosen.append(fi)
  \<close>
\<close>

fun select_files :: "string set \<Rightarrow> entry list \<Rightarrow> entry list" where
  "select_files wanted [] = []"
| "select_files wanted (fi # files) =
     (let nm = get_or (name fi) [];
          u = py_or (py_or (download_url fi) (url fi)) (supplied_url fi)
      in if nm = [] \<or> \<not> truthy u then select_files wanted files
         else if \<not> looks_like_attention_fmri nm then select_files wanted files
         else (let sub = normalize_sub_code nm
               in if truthy sub \<and> the sub \<in> wanted then
                    fi\<lparr>sub_code := sub,
                       short_code := Some (get_or (map_of SUB_TO_S (the sub)) ''Sx'')\<rparr>
                    # select_files wanted files
                  else select_files wanted files))"

section \<open>The world the script runs in\<close>

text \<open>
  The destination directory \<^verbatim>\<open>dest_root\<close> is the only place the script writes to.
  \<open>dest_kind\<close> says what is at that path, \<open>children\<close> lists the entries of the directory by
  name in the order \<^verbatim>\<open>iterdir\<close> yields them (a regular file with its bytes, or a
  subdirectory, whose contents the script never reads), \<open>http\<close> is the log of the HTTP requests
  made and \<open>stdout\<close> the lines printed, one element for each call of \<^verbatim>\<open>print\<close>.
\<close>

datatype node = File string | Dir

datatype kind = Missing | RegularFile | Directory

datatype http_call = ApiGet int | UrlOpen string | UrlRetrieve string string

record world =
  dest_kind :: kind
  children :: "(string \<times> node) list"
  http :: "http_call list"
  stdout :: "string list"

text \<open>One record of the manifest's \<^verbatim>\<open>downloaded\<close> list, and the manifest itself.\<close>

record mrec =
  api_name :: string
  saved_as :: string
  subject_S :: string
  rec_download_url :: string
  md5_remote :: "string option"
  md5_local :: "string option"

record manifest_doc =
  figshare_article_id :: int
  doc_dest_root :: string
  S_to_sub :: "(string \<times> string) list"
  sub_to_S :: "(string \<times> string) list"
  downloaded :: "mrec list"
  pruned :: "string list"

text \<open>
  What the script takes from its libraries and from the outside:
  \<open>resolve\<close> is \<^verbatim>\<open>Path(p).resolve()\<close> as a POSIX path, \<open>api\<close> the \<^verbatim>\<open>files\<close> array that
  \<^verbatim>\<open>GET /v2/articles/{id}\<close> returns (\<^verbatim>\<open>[]\<close> when the key is absent) or the failure of
  that request, \<open>remote\<close> the bytes behind a download address (\<open>None\<close>: the request fails),
  \<open>tqdm\<close> whether the progress library is installed, \<open>md5_hexdigest\<close> the MD5 digest in hex,
  \<open>json_dumps\<close> the serialisation \<^verbatim>\<open>json.dumps(..., indent=2)\<close> and \<open>locked\<close> the names of
  the children that the operating system refuses to remove.
\<close>

record env =
  resolve :: "string \<Rightarrow> string"
  api :: "int \<Rightarrow> exn + entry list"
  remote :: "string \<Rightarrow> string option"
  tqdm :: bool
  md5_hexdigest :: "string \<Rightarrow> string"
  json_dumps :: "manifest_doc \<Rightarrow> string"
  locked :: "string \<Rightarrow> bool"

text \<open>One target of the file list: \<^verbatim>\<open>{save_in, article_id, subjects}\<close>, each key optional.\<close>

record target =
  save_in :: "string option"
  article_id :: "int option"
  subjects :: "string list option"

definition print_line :: "string \<Rightarrow> world \<Rightarrow> world" where
  "print_line s w = w\<lparr>stdout := stdout w @ [s]\<rparr>"

definition request :: "http_call \<Rightarrow> world \<Rightarrow> world" where
  "request c w = w\<lparr>http := http w @ [c]\<rparr>"

text \<open>\<^verbatim>\<open>dest_root / name\<close> as a POSIX path.\<close>

definition joinpath :: "string \<Rightarrow> string \<Rightarrow> string" where
  "joinpath d n = (if d = ''/'' then d @ n else d @ ''/'' @ n)"

text \<open>\<^verbatim>\<open>p.exists()\<close> and \<^verbatim>\<open>p.is_dir()\<close> for the child of that name.\<close>

definition exists_child :: "world \<Rightarrow> string \<Rightarrow> bool" where
  "exists_child w n = (map_of (children w) n \<noteq> None)"

definition is_dir :: "world \<Rightarrow> string \<Rightarrow> bool" where
  "is_dir w n = (map_of (children w) n = Some Dir)"

text \<open>The text of an operating-system error about a path, as \<^verbatim>\<open>str(e)\<close> gives it.\<close>

definition quoted :: "string \<Rightarrow> string" where
  "quoted s = [CHR 0x27] @ s @ [CHR 0x27]"

text \<open>\<^verbatim>\<open>dest_root.mkdir(parents=True, exist_ok=True)\<close>.\<close>

definition mkdir_p :: "string \<Rightarrow> world \<Rightarrow> (exn + unit) \<times> world" where
  "mkdir_p path w =
     (case dest_kind w of
        RegularFile \<Rightarrow> (Inl (FileExistsError path), w)
      | Directory \<Rightarrow> (Inr (), w)
      | Missing \<Rightarrow> (Inr (), w\<lparr>dest_kind := Directory, children := []\<rparr>))"

text \<open>
  \<^verbatim>\<open>
  def fetch_figshare_files(article_id):
      url = FIGSHARE_API_ARTICLE.format(article_id=article_id)
      with urlopen(Request(url, headers={"User-Agent":"Mozilla/5.0"})) as r:
          meta = json.load(r)
      return meta.get("files", [])
  \<close>
\<close>

definition fetch_figshare_files :: "env \<Rightarrow> int \<Rightarrow> world \<Rightarrow> (exn + entry list) \<times> world" where
  "fetch_figshare_files e article w = (api e article, request (ApiGet article) w)"

text \<open>
  \<^verbatim>\<open>urlretrieve(url, dest)\<close>: one request; on success the bytes are written to the child
  \<open>n\<close> of the destination directory, which is created or overwritten.
\<close>

definition urlretrieve :: "env \<Rightarrow> string \<Rightarrow> string \<Rightarrow> string \<Rightarrow> world \<Rightarrow> (exn + unit) \<times> world" where
  "urlretrieve e u path n w =
     (let w1 = request (UrlRetrieve u n) w
      in case remote e u of
           None \<Rightarrow> (Inl (URLError u), w1)
         | Some b \<Rightarrow>
             if is_dir w1 n then (Inl (IsADirectoryError path), w1)
             else (Inr (), w1\<lparr>children := AList.update n (File b) (children w1)\<rparr>))"

text \<open>
  \<^verbatim>\<open>
  def _progress_urlretrieve(url, dest):
      if tqdm is None:
          urlretrieve(url, dest.as_posix()); return
      try:
          with urlopen(Request(url, headers={"User-Agent":"Mozilla/5.0"})) as r:
              total = int(r.headers.get("Content-Length","0"))
      except Exception:
          total = 0
      pbar = tqdm(total=total, ...) if total else None
      ...
      try:
          urlretrieve(url, dest.as_posix(), hook)
      finally:
          if pbar is not None: pbar.close()
  \<close>
  With the progress library there is one more request, for the length, whose failure is
  tolerated; the progress bar itself goes to the terminal and is not part of the world.
\<close>

definition progress_urlretrieve ::
  "env \<Rightarrow> string \<Rightarrow> string \<Rightarrow> string \<Rightarrow> world \<Rightarrow> (exn + unit) \<times> world" where
  "progress_urlretrieve e u path n w =
     (if \<not> tqdm e then urlretrieve e u path n w
      else urlretrieve e u path n (request (UrlOpen u) w))"

text \<open>
  \<^verbatim>\<open>
  def _md5sum(path):
      h = hashlib.md5()
      with path.open("rb") as f:
          for chunk in iter(lambda: f.read(1024*1024), b""): h.update(chunk)
      return h.hexdigest()
  \<close>
  Feeding the chunks one by one gives the digest of the whole contents. Opening fails on a
  missing path and on a directory; \<open>Inl\<close> carries the text of that error.
\<close>

definition md5sum :: "env \<Rightarrow> string \<Rightarrow> string \<Rightarrow> world \<Rightarrow> string + string" where
  "md5sum e path n w =
     (case map_of (children w) n of
        None \<Rightarrow> Inl (''[Errno 2] No such file or directory: '' @ quoted path)
      | Some Dir \<Rightarrow> Inl (''[Errno 21] Is a directory: '' @ quoted path)
      | Some (File b) \<Rightarrow> Inr (md5_hexdigest e b))"

section \<open>Downloading and verifying\<close>

text \<open>
  Lines 128 to 133 of \<open>main\<close>, the download with its existence check:
  \<^verbatim>\<open>
  out_path = dest_root / f"{S}_attention.h5"
  if not out_path.exists():
      print(f"Downloading {name} -> {out_path}")
      _progress_urlretrieve(url, out_path)
  else:
      print(f"Exists, skipping: {out_path}")
  \<close>
  (the arrow of the first message is U+2192, here the three bytes of its UTF-8 encoding).
\<close>

definition arrow :: string where
  "arrow = [CHR 0xE2, CHR 0x86, CHR 0x92]"

definition download_if_missing ::
  "env \<Rightarrow> string \<Rightarrow> string \<Rightarrow> string \<Rightarrow> string \<Rightarrow> world \<Rightarrow> (exn + unit) \<times> world" where
  "download_if_missing e nm u out_path n w =
     (if \<not> exists_child w n then
        progress_urlretrieve e u out_path n
          (print_line (''Downloading '' @ nm @ '' '' @ arrow @ '' '' @ out_path) w)
      else (Inr (), print_line (''Exists, skipping: '' @ out_path) w))"

text \<open>
  Lines 135 to 142, the check of the digest:
  \<^verbatim>\<open>
  md5_local = None
  try:
      md5_local = _md5sum(out_path)
      if md5_remote and md5_local != md5_remote:
          raise ValueError(f"MD5 mismatch for {name}\nExpected: {md5_remote}\nActual:   {md5_local}")
  except Exception as e:
      print(f"MD5 check issue for {name}: {e}")
  \<close>
  It returns the value of \<^verbatim>\<open>md5_local\<close> afterwards.
\<close>

definition mismatch_text :: "string \<Rightarrow> string \<Rightarrow> string \<Rightarrow> string" where
  "mismatch_text nm expected actual =
     ''MD5 mismatch for '' @ nm @ [CHR 0x0A] @ ''Expected: '' @ expected @ [CHR 0x0A]
       @ ''Actual:   '' @ actual"

definition verify_md5 ::
  "env \<Rightarrow> string \<Rightarrow> string option \<Rightarrow> string \<Rightarrow> string \<Rightarrow> world \<Rightarrow> string option \<times> world" where
  "verify_md5 e nm remote_md5 out_path n w =
     (case md5sum e out_path n w of
        Inl err \<Rightarrow> (None, print_line (''MD5 check issue for '' @ nm @ '': '' @ err) w)
      | Inr h \<Rightarrow>
          if truthy remote_md5 \<and> Some h \<noteq> remote_md5 then
            (Some h,
             print_line (''MD5 check issue for '' @ nm @ '': ''
                           @ mismatch_text nm (the remote_md5) h) w)
          else (Some h, w))"

text \<open>
  The body of the loop over \<open>chosen\<close> (lines 124 to 151). It starts with
  \<^verbatim>\<open>name, url, md5_remote = fi["name"], fi["download_url"], fi.get("md5")\<close> and
  \<^verbatim>\<open>S = fi["__S"]\<close>, where a missing key raises, and ends with the record appended to the
  manifest.
\<close>

definition process_file :: "env \<Rightarrow> string \<Rightarrow> entry \<Rightarrow> world \<Rightarrow> (exn + mrec) \<times> world" where
  "process_file e dest_root fi w =
     (case name fi of
        None \<Rightarrow> (Inl (KeyError ''name''), w)
      | Some nm \<Rightarrow>
     (case download_url fi of
        None \<Rightarrow> (Inl (KeyError ''download_url''), w)
      | Some u \<Rightarrow>
     (case short_code fi of
        None \<Rightarrow> (Inl (KeyError ''__S''), w)
      | Some S \<Rightarrow>
          (let n = S @ ''_attention.h5'';
               out_path = joinpath dest_root n
           in case download_if_missing e nm u out_path n w of
                (Inl err, w1) \<Rightarrow> (Inl err, w1)
              | (Inr _, w1) \<Rightarrow>
                  (let (local_md5, w2) = verify_md5 e nm (md5 fi) out_path n w1
                   in (Inr \<lparr>api_name = nm, saved_as = out_path, subject_S = S,
                             rec_download_url = u, md5_remote = md5 fi,
                             md5_local = local_md5\<rparr>, w2))))))"

text \<open>The loop itself; the first exception ends it. It returns the list \<^verbatim>\<open>manifest\<close>.\<close>

fun download_all :: "env \<Rightarrow> string \<Rightarrow> entry list \<Rightarrow> world \<Rightarrow> (exn + mrec list) \<times> world" where
  "download_all e dest_root [] w = (Inr [], w)"
| "download_all e dest_root (fi # fis) w =
     (case process_file e dest_root fi w of
        (Inl err, w1) \<Rightarrow> (Inl err, w1)
      | (Inr r, w1) \<Rightarrow>
          (case download_all e dest_root fis w1 of
             (Inl err, w2) \<Rightarrow> (Inl err, w2)
           | (Inr rs, w2) \<Rightarrow> (Inr (r # rs), w2)))"

section \<open>Pruning and the manifest\<close>

text \<open>
  \<^verbatim>\<open>
  allowed = {f"{S}_attention.h5" for S in S_TO_SUB.keys()}
  allowed.add("attention_manifest.json")
  \<close>
\<close>

definition manifest_name :: string where
  "manifest_name = ''attention_manifest.json''"

definition allowed :: "string set" where
  "allowed = insert manifest_name (set (map (\<lambda>S. S @ ''_attention.h5'') (map fst S_TO_SUB)))"

text \<open>
  \<^verbatim>\<open>p.unlink()\<close> removes a regular file; it fails on a missing path, on a directory and
  where the operating system refuses.
\<close>

definition unlink :: "env \<Rightarrow> string \<Rightarrow> string \<Rightarrow> world \<Rightarrow> exn + world" where
  "unlink e path n w =
     (case map_of (children w) n of
        None \<Rightarrow> Inl (FileNotFoundError path)
      | Some Dir \<Rightarrow> Inl (IsADirectoryError path)
      | Some (File b) \<Rightarrow>
          if locked e n then Inl (PermissionError path)
          else Inr (w\<lparr>children := AList.delete n (children w)\<rparr>))"

text \<open>
  \<^verbatim>\<open>shutil.rmtree(p, ignore_errors=True)\<close> never raises: where the removal is refused the
  directory stays.
\<close>

definition rmtree_ignore_errors :: "env \<Rightarrow> string \<Rightarrow> world \<Rightarrow> world" where
  "rmtree_ignore_errors e n w =
     (if locked e n then w else w\<lparr>children := AList.delete n (children w)\<rparr>)"

text \<open>
  \<^verbatim>\<open>
  pruned = []
  for p in dest_root.iterdir():
      if p.name in allowed: continue
      try:
          if p.is_dir():
              shutil.rmtree(p, ignore_errors=True)
          else:
              p.unlink()
          pruned.append(p.name)
      except Exception:
          pass
  \<close>
  The loop runs over the names that \<^verbatim>\<open>iterdir\<close> listed when it started.
\<close>

fun prune :: "env \<Rightarrow> string \<Rightarrow> string list \<Rightarrow> string list \<Rightarrow> world \<Rightarrow> string list \<times> world" where
  "prune e dest_root [] acc w = (acc, w)"
| "prune e dest_root (p # ps) acc w =
     (if p \<in> allowed then prune e dest_root ps acc w
      else if is_dir w p then
        prune e dest_root ps (acc @ [p]) (rmtree_ignore_errors e p w)
      else (case unlink e (joinpath dest_root p) p w of
              Inl err \<Rightarrow> prune e dest_root ps acc w
            | Inr w1 \<Rightarrow> prune e dest_root ps (acc @ [p]) w1))"

text \<open>\<^verbatim>\<open>path.write_text(text)\<close> on a child of the destination directory.\<close>

definition write_text :: "string \<Rightarrow> string \<Rightarrow> string \<Rightarrow> world \<Rightarrow> (exn + unit) \<times> world" where
  "write_text path n text w =
     (if is_dir w n then (Inl (IsADirectoryError path), w)
      else (Inr (), w\<lparr>children := AList.update n (File text) (children w)\<rparr>))"

text \<open>\<^verbatim>\<open>sep.join(xs)\<close>.\<close>

fun join :: "string \<Rightarrow> string list \<Rightarrow> string" where
  "join sep [] = []"
| "join sep [x] = x"
| "join sep (x # y # ys) = x @ sep @ join sep (y # ys)"

text \<open>
  The closing report (lines 177 to 183):
  \<^verbatim>\<open>
  print(f"\nSaved attention files under: {dest_root}")
  for S in sorted(S_TO_SUB.keys()):
      p = dest_root / f"{S}_attention.h5"
      print(" -", p, "OK" if p.exists() else "MISSING")
  if pruned:
      print("Removed extras:", ", ".join(pruned))
  print("Done.")
  \<close>
\<close>

definition report_line :: "string \<Rightarrow> world \<Rightarrow> string \<Rightarrow> string" where
  "report_line dest_root w S =
     '' - '' @ joinpath dest_root (S @ ''_attention.h5'') @ '' ''
       @ (if exists_child w (S @ ''_attention.h5'') then ''OK'' else ''MISSING'')"

definition report :: "string \<Rightarrow> string list \<Rightarrow> world \<Rightarrow> world" where
  "report dest_root prn w =
     w\<lparr>stdout := stdout w
          @ [[CHR 0x0A] @ ''Saved attention files under: '' @ dest_root]
          @ map (report_line dest_root w) (sort (map fst S_TO_SUB))
          @ (if prn \<noteq> [] then [''Removed extras: '' @ join '', '' prn] else [])
          @ [''Done.'']\<rparr>"

section \<open>The program\<close>

text \<open>
  \<open>main\<close> from line 95 on. The file list has been read and parsed: \<open>conf\<close> is its JSON
  object, \<open>filelist_path\<close> the path it was read from and \<open>tgt\<close> the target named on the
  command line.
\<close>

definition main ::
  "env \<Rightarrow> string \<Rightarrow> string \<Rightarrow> (string \<times> target) list \<Rightarrow> world \<Rightarrow> (exn + unit) \<times> world" where
  "main e tgt filelist_path conf w =
     (case map_of conf tgt of
        None \<Rightarrow> (Inl (KeyError_target tgt filelist_path (map fst conf)), w)
      | Some t \<Rightarrow>
     (let dest_root = resolve e (get_or (save_in t) ''./fmri/test_attention'')
      in case mkdir_p dest_root w of
           (Inl err, w1) \<Rightarrow> (Inl err, w1)
         | (Inr _, w1) \<Rightarrow>
     (let article = get_or (article_id t) 13474629
      in case select_subjects (get_or (subjects t) []) of
           Inl err \<Rightarrow> (Inl err, w1)
         | Inr subs \<Rightarrow>
     (let wanted = set subs
      in case fetch_figshare_files e article w1 of
           (Inl err, w2) \<Rightarrow> (Inl err, w2)
         | (Inr files, w2) \<Rightarrow>
     (let chosen = select_files wanted files
      in if chosen = [] then
           (Inr (), print_line ''No matching attention fMRI files found.'' w2)
         else
     (case download_all e dest_root chosen w2 of
        (Inl err, w3) \<Rightarrow> (Inl err, w3)
      | (Inr manifest, w3) \<Rightarrow>
     (let (prn, w4) = prune e dest_root (map fst (children w3)) [] w3
      in case write_text (joinpath dest_root manifest_name) manifest_name
                (json_dumps e
                   \<lparr>figshare_article_id = article, doc_dest_root = dest_root,
                    S_to_sub = S_TO_SUB, sub_to_S = SUB_TO_S,
                    downloaded = manifest, pruned = prn\<rparr>) w4 of
           (Inl err, w5) \<Rightarrow> (Inl err, w5)
         | (Inr _, w5) \<Rightarrow> (Inr (), report dest_root prn w5))))))))"

section \<open>Notions used in the statements\<close>

text \<open>
  A subject string that \<open>select_subjects\<close> rejects: its upper-case form is no key of
  \<open>S_TO_SUB\<close> and \<open>_normalize_sub_code\<close> returns \<^verbatim>\<open>None\<close> for it.
\<close>

definition unrecognized :: "string \<Rightarrow> bool" where
  "unrecognized s = (map_of S_TO_SUB (py_upper s) = None \<and> normalize_sub_code s = None)"

text \<open>
  The value \<^verbatim>\<open>md5_local\<close> that the check of the digest leaves for the child \<open>n\<close>: the digest
  of a regular file, \<^verbatim>\<open>None\<close> where \<open>_md5sum\<close> raises.
\<close>

definition local_md5 :: "env \<Rightarrow> world \<Rightarrow> string \<Rightarrow> string option" where
  "local_md5 e w n =
     (case map_of (children w) n of Some (File b) \<Rightarrow> Some (md5_hexdigest e b) | _ \<Rightarrow> None)"

text \<open>The file name under which an annotated entry is saved.\<close>

definition out_name :: "entry \<Rightarrow> string" where
  "out_name fi = the (short_code fi) @ ''_attention.h5''"

text \<open>The manifest record of an entry, read off a world in which its file is in place.\<close>

definition mrec_of :: "env \<Rightarrow> string \<Rightarrow> world \<Rightarrow> entry \<Rightarrow> mrec" where
  "mrec_of e dest_root w fi =
     \<lparr>api_name = the (name fi), saved_as = joinpath dest_root (out_name fi),
      subject_S = the (short_code fi), rec_download_url = the (download_url fi),
      md5_remote = md5 fi, md5_local = local_md5 e w (out_name fi)\<rparr>"

text \<open>The addresses of the \<^verbatim>\<open>urlretrieve\<close> requests of a log that write to the child \<open>n\<close>.\<close>

fun retrievals :: "string \<Rightarrow> http_call list \<Rightarrow> string list" where
  "retrievals n [] = []"
| "retrievals n (UrlRetrieve u m # cs) = (if m = n then u # retrievals n cs else retrievals n cs)"
| "retrievals n (c # cs) = retrievals n cs"

text \<open>The line that reports a digest that differs from the remote one.\<close>

definition mismatch_line :: "string \<Rightarrow> string \<Rightarrow> string \<Rightarrow> string" where
  "mismatch_line nm expected actual =
     ''MD5 check issue for '' @ nm @ '': '' @ mismatch_text nm expected actual"

text \<open>
  The entries that the selection is to keep, in the words of the specification: an entry
  with a non-empty address in one of the fields \<^verbatim>\<open>download_url\<close>, \<^verbatim>\<open>url\<close>, \<^verbatim>\<open>supplied_url\<close>,
  whose name in lower case ends in \<^verbatim>\<open>.h5\<close> and contains both \<^verbatim>\<open>attention\<close> and \<^verbatim>\<open>vc\<close>, and
  whose derived subject code lies in the wanted set. \<open>annotate\<close> is what the loop writes into
  a kept entry.
\<close>

definition has_url :: "entry \<Rightarrow> bool" where
  "has_url fi = (truthy (download_url fi) \<or> truthy (url fi) \<or> truthy (supplied_url fi))"

definition kept :: "string set \<Rightarrow> entry \<Rightarrow> bool" where
  "kept wanted fi =
     (has_url fi \<and>
      suffix ''.h5'' (py_lower (get_or (name fi) [])) \<and>
      sublist ''attention'' (py_lower (get_or (name fi) [])) \<and>
      sublist ''vc'' (py_lower (get_or (name fi) [])) \<and>
      (case normalize_sub_code (get_or (name fi) []) of
         None \<Rightarrow> False
       | Some sub \<Rightarrow> sub \<in> wanted))"

definition annotate :: "entry \<Rightarrow> entry" where
  "annotate fi =
     fi\<lparr>sub_code := normalize_sub_code (get_or (name fi) []),
        short_code :=
          Some (get_or (map_of SUB_TO_S (the (normalize_sub_code (get_or (name fi) [])))) ''Sx'')\<rparr>"

text \<open>
  Whether the pruning loop, reaching a child \<open>p\<close> outside the allowed set, appends its name
  to \<^verbatim>\<open>pruned\<close>: always for a directory, and for a regular file when \<^verbatim>\<open>unlink\<close> succeeds.
\<close>

definition listed :: "env \<Rightarrow> world \<Rightarrow> string \<Rightarrow> bool" where
  "listed e w p =
     (case map_of (children w) p of
        None \<Rightarrow> False
      | Some Dir \<Rightarrow> True
      | Some (File b) \<Rightarrow> \<not> locked e p)"

section \<open>Example inputs\<close>

text \<open>
  A file list with the one target \<^verbatim>\<open>fmri_attention\<close>, a catalog entry with a name and one
  address field, a destination directory that holds two stray files and a stray
  subdirectory, and an environment in which two addresses answer and the file \<^verbatim>\<open>keep\<close>
  cannot be removed.
\<close>

definition ex_conf :: "string list \<Rightarrow> (string \<times> target) list" where
  "ex_conf specs =
     [(''fmri_attention'',
       \<lparr>save_in = Some ''/data/fmri'', article_id = None, subjects = Some specs\<rparr>)]"

definition ex_entry :: "string \<Rightarrow> string option \<Rightarrow> string option \<Rightarrow> string option \<Rightarrow> entry" where
  "ex_entry nm dl u m =
     \<lparr>name = Some nm, download_url = dl, url = u, supplied_url = None, md5 = m,
      sub_code = None, short_code = None\<rparr>"

definition ex_env :: "entry list \<Rightarrow> env" where
  "ex_env files =
     \<lparr>resolve = (\<lambda>p. p), api = (\<lambda>a. Inr files),
      remote = map_of [(''http://x/1'', ''abc''), (''http://x/2'', ''defg'')],
      tqdm = False, md5_hexdigest = (\<lambda>b. ''md5:'' @ b),
      json_dumps = (\<lambda>d. join '','' (pruned d)), locked = (\<lambda>n. n = ''keep'')\<rparr>"

definition ex_world :: world where
  "ex_world =
     \<lparr>dest_kind = Directory,
      children = [(''stray'', File ''x''), (''keep'', File ''y''), (''old'', Dir)],
      http = [], stdout = []\<rparr>"

text \<open>
  Three catalogs: one entry for \<^verbatim>\<open>sub-01\<close> whose remote digest \<^verbatim>\<open>zz\<close> is not the digest of
  its bytes, followed by an entry that does not match; two entries for \<^verbatim>\<open>sub-01\<close>; and one
  entry whose address is in the field \<^verbatim>\<open>url\<close> only.
\<close>

definition ex_catalog :: "entry list" where
  "ex_catalog =
     [ex_entry ''sub-01_attention_vc.h5'' (Some ''http://x/1'') None (Some ''zz''),
      ex_entry ''sub-99_other.h5'' (Some ''http://x/2'') None None]"

definition ex_twins :: "entry list" where
  "ex_twins =
     [ex_entry ''sub-01_attention_vc.h5'' (Some ''http://x/1'') None None,
      ex_entry ''sub-01_attention_vc_v2.h5'' (Some ''http://x/2'') None None]"

definition ex_url_only :: "entry list" where
  "ex_url_only = [ex_entry ''sub-01_attention_vc.h5'' None (Some ''http://x/1'') None]"

section \<open>Properties of the subject selection\<close>



lemma fmt_1: "fmt_02d 1 = ''01''" "fmt_02d 4 = ''04''" "fmt_02d 6 = ''06''" "fmt_02d 7 = ''07''"
  by code_simp+

lemma fmt_02d_range: "n \<in> set [1, 4, 6, 7] \<Longrightarrow> ''sub-'' @ fmt_02d n \<in> set (map fst SUB_TO_S)"
  using fmt_1 by (auto simp: SUB_TO_S_def S_TO_SUB_def)

lemma normalize_sub_code_range:
  "normalize_sub_code s = Some r \<Longrightarrow> r \<in> set (map fst SUB_TO_S)"
  unfolding normalize_sub_code_def Let_def
  using fmt_02d_range by (auto split: option.splits if_splits)

lemma truthy_normalize: "truthy (normalize_sub_code s) \<longleftrightarrow> normalize_sub_code s \<noteq> None"
  using normalize_sub_code_range[of s] by (cases "normalize_sub_code s") (auto simp: truthy_def SUB_TO_S_def S_TO_SUB_def)

lemma S_TO_SUB_range: "map_of S_TO_SUB k = Some v \<Longrightarrow> v \<in> set (map fst SUB_TO_S)"
  by (auto simp: S_TO_SUB_def SUB_TO_S_def split: if_splits)

lemma select_loop_range:
  "select_loop specs out = Inr r \<Longrightarrow> r \<subseteq> out \<union> set (map fst SUB_TO_S)"
proof (induction specs arbitrary: out)
  case Nil then show ?case by auto
next
  case (Cons s ss)
  show ?case
  proof (cases "map_of S_TO_SUB (py_upper s)")
    case (Some v)
    with Cons.prems have "select_loop ss (insert v out) = Inr r" by simp
    from Cons.IH[OF this] S_TO_SUB_range[OF Some] show ?thesis by auto
  next
    case None
    show ?thesis
    proof (cases "normalize_sub_code s")
      case N: None
      with None Cons.prems show ?thesis by (simp add: truthy_def)
    next
      case (Some sub)
      with None Cons.prems truthy_normalize[of s] have "select_loop ss (insert sub out) = Inr r" by simp
      from Cons.IH[OF this] normalize_sub_code_range[OF Some] show ?thesis by auto
    qed
  qed
qed



lemma select_loop_first_bad:
  "find unrecognized specs = Some b \<Longrightarrow>
   select_loop specs out = Inl (ValueError (''Unrecognized subject: '' @ b))"
proof (induction specs arbitrary: out)
  case Nil then show ?case by simp
next
  case (Cons s ss)
  show ?case
  proof (cases "unrecognized s")
    case True
    with Cons.prems have "b = s" by simp
    with True show ?thesis by (simp add: unrecognized_def truthy_def)
  next
    case False
    with Cons.prems have f: "find unrecognized ss = Some b" by simp
    show ?thesis
    proof (cases "map_of S_TO_SUB (py_upper s)")
      case (Some v)
      then show ?thesis using Cons.IH[OF f] by simp
    next
      case None
      with False have "normalize_sub_code s \<noteq> None" by (simp add: unrecognized_def)
      then show ?thesis using None Cons.IH[OF f] truthy_normalize[of s] by simp
    qed
  qed
qed

lemma select_subjects_first_bad:
  "find unrecognized specs = Some b \<Longrightarrow>
   select_subjects specs = Inl (ValueError (''Unrecognized subject: '' @ b))"
  using select_loop_first_bad[of specs b "{}"] by (auto simp: select_subjects_def)

lemma find_unrecognized_ex:
  "s \<in> set specs \<Longrightarrow> unrecognized s \<Longrightarrow>
   \<exists>b. find unrecognized specs = Some b \<and> b \<in> set specs \<and> unrecognized b"
  by (cases "find unrecognized specs") (auto simp: find_None_iff find_Some_iff)

lemma select_subjects_sorted:
  assumes "select_subjects specs = Inr r"
  shows "distinct r" and "set r \<subseteq> set (map fst SUB_TO_S)" and "specs \<noteq> [] \<Longrightarrow> sorted r"
proof -
  have d: "distinct (map fst SUB_TO_S)" by (simp add: SUB_TO_S_def S_TO_SUB_def)
  show "distinct r"
  proof (cases "specs = []")
    case True with assms d show ?thesis by (auto simp: select_subjects_def)
  next
    case False with assms show ?thesis by (auto simp: select_subjects_def split: sum.splits)
  qed
  show "set r \<subseteq> set (map fst SUB_TO_S)"
  proof (cases "specs = []")
    case True with assms show ?thesis by (auto simp: select_subjects_def)
  next
    case False
    with assms obtain out where o: "select_loop specs {} = Inr out" and r: "r = sorted_list_of_set out"
      by (auto simp: select_subjects_def split: sum.splits)
    from select_loop_range[OF o] have sub: "out \<subseteq> set (map fst SUB_TO_S)" by simp
    then have "finite out" using finite_subset by blast
    with r sub show ?thesis by simp
  qed
  show "specs \<noteq> [] \<Longrightarrow> sorted r"
    using assms by (auto simp: select_subjects_def split: sum.splits)
qed

text \<open>
  Claim C3. Each of the subject strings \<^verbatim>\<open>S1\<close>, \<^verbatim>\<open>s1\<close>, \<^verbatim>\<open>sub-06\<close> and \<^verbatim>\<open>SUB_06\<close> is resolved
  by \<open>select_subjects\<close> to the canonical code \<^verbatim>\<open>sub-06\<close>, and a string whose upper-case form
  is no short code and which \<open>_normalize_sub_code\<close> maps to no subject code makes
  \<open>select_subjects\<close> raise the \<^verbatim>\<open>ValueError\<close> of the validation.
\<close>
theorem select_subjects_resolves_S1:
  "select_subjects [''S1''] = Inr [''sub-06''] \<and>
   select_subjects [''s1''] = Inr [''sub-06''] \<and>
   select_subjects [''sub-06''] = Inr [''sub-06''] \<and>
   select_subjects [''SUB_06''] = Inr [''sub-06''] \<and>
   (map_of S_TO_SUB (py_upper s) = None \<and> normalize_sub_code s = None \<longrightarrow>
      select_subjects [s] = Inl (ValueError (''Unrecognized subject: '' @ s)))"
proof -
  have 1: "select_subjects [''S1''] = Inr [''sub-06'']" by code_simp
  have 2: "select_subjects [''s1''] = Inr [''sub-06'']" by code_simp
  have 3: "select_subjects [''sub-06''] = Inr [''sub-06'']" by code_simp
  have 4: "select_subjects [''SUB_06''] = Inr [''sub-06'']" by code_simp
  have 5: "select_subjects [s] = Inl (ValueError (''Unrecognized subject: '' @ s))"
    if "map_of S_TO_SUB (py_upper s) = None" "normalize_sub_code s = None"
    using that select_subjects_first_bad[of "[s]" s] by (simp add: unrecognized_def)
  from 1 2 3 4 5 show ?thesis by blast
qed

theorem select_subjects_resolves_S1_witness:
  "select_subjects [''sub-99''] = Inl (ValueError ''Unrecognized subject: sub-99'')"
proof -
  have a: "map_of S_TO_SUB (py_upper ''sub-99'') = None" by code_simp
  have b: "normalize_sub_code ''sub-99'' = None" by code_simp
  from select_subjects_resolves_S1[of "''sub-99''"] a b show ?thesis by simp
qed

text \<open>
  Claim C9, as it stands, fails on the empty list of subject strings: the result is the list
  of the keys of \<open>SUB_TO_S\<close> in the order of the table, which is not sorted.
\<close>
theorem select_subjects_empty_unsorted:
  "select_subjects [] = Inr [''sub-06'', ''sub-07'', ''sub-04'', ''sub-01''] \<and>
   \<not> sorted [''sub-06'', ''sub-07'', ''sub-04'', ''sub-01'']"
  by (simp add: select_subjects_def SUB_TO_S_def S_TO_SUB_def)

text \<open>
  Claim C9, amended. Whenever \<open>select_subjects\<close> does not raise, its result has no duplicates
  and all its elements are among \<^verbatim>\<open>sub-01\<close>, \<^verbatim>\<open>sub-04\<close>, \<^verbatim>\<open>sub-06\<close>, \<^verbatim>\<open>sub-07\<close>; it is sorted
  when the list of subject strings is not empty; for the empty list it is the four codes in
  the order of the table: \<^verbatim>\<open>sub-06\<close>, \<^verbatim>\<open>sub-07\<close>, \<^verbatim>\<open>sub-04\<close>, \<^verbatim>\<open>sub-01\<close>.
\<close>
theorem select_subjects_result:
  "(select_subjects specs = Inr r \<longrightarrow>
      distinct r \<and> set r \<subseteq> {''sub-01'', ''sub-04'', ''sub-06'', ''sub-07''} \<and>
      (specs \<noteq> [] \<longrightarrow> sorted r)) \<and>
   select_subjects [] = Inr [''sub-06'', ''sub-07'', ''sub-04'', ''sub-01'']"
proof -
  have e: "select_subjects [] = Inr [''sub-06'', ''sub-07'', ''sub-04'', ''sub-01'']"
    by (simp add: select_subjects_def SUB_TO_S_def S_TO_SUB_def)
  have s: "set (map fst SUB_TO_S) = {''sub-01'', ''sub-04'', ''sub-06'', ''sub-07''}"
    by (auto simp: SUB_TO_S_def S_TO_SUB_def)
  show ?thesis using e select_subjects_sorted[of specs r] s by blast
qed

theorem select_subjects_result_witness:
  "distinct [''sub-01'', ''sub-06''] \<and> sorted [''sub-01'', ''sub-06'']"
proof -
  have a: "select_subjects [''s1'', ''sub-06'', ''S4''] = Inr [''sub-01'', ''sub-06'']" by code_simp
  from select_subjects_result[of "[''s1'', ''sub-06'', ''S4'']" "[''sub-01'', ''sub-06'']"] a
  show ?thesis by simp
qed


section \<open>Properties of the download step\<close>

lemma download_if_missing_exists:
  "exists_child w n \<Longrightarrow>
   download_if_missing e nm u p n w = (Inr (), w\<lparr>stdout := stdout w @ [''Exists, skipping: '' @ p]\<rparr>)"
  by (simp add: download_if_missing_def print_line_def)

lemma download_if_missing_new:
  "\<not> exists_child w n \<Longrightarrow>
   download_if_missing e nm u p n w =
     (let w1 = w\<lparr>stdout := stdout w @ [''Downloading '' @ nm @ '' '' @ arrow @ '' '' @ p],
                 http := http w @ (if tqdm e then [UrlOpen u] else []) @ [UrlRetrieve u n]\<rparr>
      in case remote e u of
           None \<Rightarrow> (Inl (URLError u), w1)
         | Some b \<Rightarrow> (Inr (), w1\<lparr>children := AList.update n (File b) (children w)\<rparr>))"
  by (auto simp: download_if_missing_def print_line_def progress_urlretrieve_def urlretrieve_def
        request_def is_dir_def exists_child_def Let_def split: option.splits)

lemma verify_md5_frame:
  "verify_md5 e nm rm p n w = (l, w') \<Longrightarrow>
   children w' = children w \<and> http w' = http w \<and> dest_kind w' = dest_kind w \<and>
   l = local_md5 e w n \<and> (\<exists>ls. stdout w' = stdout w @ ls) \<and>
   (\<forall>h. l = Some h \<and> truthy rm \<and> Some h \<noteq> rm \<longrightarrow> mismatch_line nm (the rm) h \<in> set (stdout w'))"
  by (auto simp: verify_md5_def md5sum_def local_md5_def print_line_def mismatch_line_def
        split: option.splits node.splits if_splits)

lemma process_file_skips:
  assumes "short_code fi = Some S" and "exists_child w (S @ ''_attention.h5'')"
  shows "http (snd (process_file e dest_root fi w)) = http w \<and>
      children (snd (process_file e dest_root fi w)) = children w"
proof (cases "name fi")
  case None then show ?thesis by (simp add: process_file_def)
next
  case (Some nm')
  show ?thesis
  proof (cases "download_url fi")
    case None with Some show ?thesis by (simp add: process_file_def)
  next
    case (Some u')
    obtain l w2 where v: "verify_md5 e nm' (md5 fi) (joinpath dest_root (S @ ''_attention.h5''))
         (S @ ''_attention.h5'')
         (w\<lparr>stdout := stdout w @ [''Exists, skipping: '' @ joinpath dest_root (S @ ''_attention.h5'')]\<rparr>) = (l, w2)"
      by (cases "verify_md5 e nm' (md5 fi) (joinpath dest_root (S @ ''_attention.h5''))
         (S @ ''_attention.h5'')
         (w\<lparr>stdout := stdout w @ [''Exists, skipping: '' @ joinpath dest_root (S @ ''_attention.h5'')]\<rparr>)") auto
    from verify_md5_frame[OF v] have "children w2 = children w" "http w2 = http w" by simp_all
    with assms Some \<open>name fi = Some nm'\<close> v show ?thesis
      by (simp add: process_file_def Let_def download_if_missing_exists)
  qed
qed

text \<open>
  Claim C6. The download is idempotent by existence check. Where the destination path
  exists, the download step makes no HTTP request and returns the world with one more
  line printed and nothing else changed, and the whole processing of the entry leaves the
  request log and the directory as they were. Where the path does not exist, the step
  makes the \<^verbatim>\<open>urlretrieve\<close> request for it (after the request for the length when the progress
  library is there), and when the address answers the bytes are stored at the path.
\<close>
theorem download_skips_existing:
  "(exists_child w n \<longrightarrow>
      download_if_missing e nm u p n w =
        (Inr (), w\<lparr>stdout := stdout w @ [''Exists, skipping: '' @ p]\<rparr>)) \<and>
   (\<not> exists_child w n \<longrightarrow>
      http (snd (download_if_missing e nm u p n w)) =
        http w @ (if tqdm e then [UrlOpen u] else []) @ [UrlRetrieve u n] \<and>
      (\<forall>b. remote e u = Some b \<longrightarrow>
         fst (download_if_missing e nm u p n w) = Inr () \<and>
         map_of (children (snd (download_if_missing e nm u p n w))) n = Some (File b))) \<and>
   (short_code fi = Some S \<and> exists_child w (S @ ''_attention.h5'') \<longrightarrow>
      http (snd (process_file e dest_root fi w)) = http w \<and>
      children (snd (process_file e dest_root fi w)) = children w)"
proof -
  have a: "exists_child w n \<longrightarrow>
      download_if_missing e nm u p n w =
        (Inr (), w\<lparr>stdout := stdout w @ [''Exists, skipping: '' @ p]\<rparr>)"
    by (simp add: download_if_missing_exists)
  have b: "\<not> exists_child w n \<longrightarrow>
      http (snd (download_if_missing e nm u p n w)) =
        http w @ (if tqdm e then [UrlOpen u] else []) @ [UrlRetrieve u n] \<and>
      (\<forall>b. remote e u = Some b \<longrightarrow>
         fst (download_if_missing e nm u p n w) = Inr () \<and>
         map_of (children (snd (download_if_missing e nm u p n w))) n = Some (File b))"
    by (auto simp: download_if_missing_new Let_def update_Some_unfold split: option.splits)
  have c: "http (snd (process_file e dest_root fi w)) = http w \<and>
      children (snd (process_file e dest_root fi w)) = children w"
    if "short_code fi = Some S" "exists_child w (S @ ''_attention.h5'')"
    using that by (rule process_file_skips)
  from a b c show ?thesis by blast
qed

theorem download_skips_existing_witness:
  "http (snd (download_if_missing (ex_env []) ''a.h5'' ''http://x/1'' ''/data/fmri/keep'' ''keep'' ex_world)) = [] \<and>
   http (snd (download_if_missing (ex_env []) ''a.h5'' ''http://x/1'' ''/data/fmri/S1_attention.h5''
           ''S1_attention.h5'' ex_world)) = [UrlRetrieve ''http://x/1'' ''S1_attention.h5'']"
proof -
  have a: "exists_child ex_world ''keep''" by code_simp
  have b: "\<not> exists_child ex_world ''S1_attention.h5''" by code_simp
  have c: "http ex_world = []" "tqdm (ex_env []) = False" by (simp_all add: ex_world_def ex_env_def)
  from download_skips_existing[of ex_world "''keep''" "ex_env []" "''a.h5''" "''http://x/1''" "''/data/fmri/keep''"] a
  have 1: "http (snd (download_if_missing (ex_env []) ''a.h5'' ''http://x/1'' ''/data/fmri/keep'' ''keep'' ex_world)) = []"
    using c by simp
  from download_skips_existing[of ex_world "''S1_attention.h5''" "ex_env []" "''a.h5''" "''http://x/1''" "''/data/fmri/S1_attention.h5''"] b
  have 2: "http (snd (download_if_missing (ex_env []) ''a.h5'' ''http://x/1'' ''/data/fmri/S1_attention.h5''
           ''S1_attention.h5'' ex_world)) = [UrlRetrieve ''http://x/1'' ''S1_attention.h5'']"
    using c by simp
  from 1 2 show ?thesis by simp
qed

section \<open>Runs that end before the download loop\<close>

lemma main_select_error:
  assumes "map_of conf tgt = Some t" and "dest_kind w \<noteq> RegularFile"
    and "select_subjects (get_or (subjects t) []) = Inl err"
  shows "main e tgt path conf w =
     (Inl err, w\<lparr>dest_kind := Directory,
                 children := (if dest_kind w = Missing then [] else children w)\<rparr>)"
  using assms by (cases "dest_kind w") (simp_all add: main_def mkdir_p_def Let_def)

text \<open>
  Claim C7. When the list of subject strings contains a string that parses to no known
  subject code, \<open>select_subjects\<close> raises the \<^verbatim>\<open>ValueError\<close> whose message names the first
  such string of the list (the string itself when it is the only one), and \<open>main\<close> ends
  with that error in the world that \<^verbatim>\<open>mkdir\<close> left: no HTTP request is made, nothing is
  printed and no child of the destination directory is touched.
\<close>
theorem unrecognized_subject_is_fatal:
  assumes "s \<in> set specs" and "map_of S_TO_SUB (py_upper s) = None" and "normalize_sub_code s = None"
  shows "\<exists>b. find unrecognized specs = Some b \<and> b \<in> set specs \<and> unrecognized b \<and>
           ((\<forall>x\<in>set specs. unrecognized x \<longrightarrow> x = s) \<longrightarrow> b = s) \<and>
           select_subjects specs = Inl (ValueError (''Unrecognized subject: '' @ b)) \<and>
           (\<forall>e tgt path conf t w.
              map_of conf tgt = Some t \<and> get_or (subjects t) [] = specs \<and>
              dest_kind w \<noteq> RegularFile \<longrightarrow>
              main e tgt path conf w =
                (Inl (ValueError (''Unrecognized subject: '' @ b)),
                 w\<lparr>dest_kind := Directory,
                   children := (if dest_kind w = Missing then [] else children w)\<rparr>))"
proof -
  from assms have "unrecognized s" by (simp add: unrecognized_def)
  from find_unrecognized_ex[OF assms(1) this] obtain b
    where b: "find unrecognized specs = Some b" "b \<in> set specs" "unrecognized b" by blast
  have sel: "select_subjects specs = Inl (ValueError (''Unrecognized subject: '' @ b))"
    by (rule select_subjects_first_bad[OF b(1)])
  have u: "(\<forall>x\<in>set specs. unrecognized x \<longrightarrow> x = s) \<longrightarrow> b = s" using b by blast
  have m: "main e tgt path conf w =
                (Inl (ValueError (''Unrecognized subject: '' @ b)),
                 w\<lparr>dest_kind := Directory,
                   children := (if dest_kind w = Missing then [] else children w)\<rparr>)"
    if "map_of conf tgt = Some t" "get_or (subjects t) [] = specs" "dest_kind w \<noteq> RegularFile"
    for e tgt path conf t w
    using main_select_error[of conf tgt t w "ValueError (''Unrecognized subject: '' @ b)" e path] that sel
    by simp
  from b sel u m show ?thesis by blast
qed

theorem unrecognized_subject_is_fatal_witness:
  "main (ex_env []) ''fmri_attention'' ''files.json'' (ex_conf [''S1'', ''bob'']) ex_world =
     (Inl (ValueError ''Unrecognized subject: bob''), ex_world)"
proof -
  have a: "''bob'' \<in> set [''S1'', ''bob'']" by simp
  have b: "map_of S_TO_SUB (py_upper ''bob'') = None" by code_simp
  have c: "normalize_sub_code ''bob'' = None" by code_simp
  have d: "\<forall>x\<in>set [''S1'', ''bob'']. unrecognized x \<longrightarrow> x = ''bob''" by code_simp
  from unrecognized_subject_is_fatal[OF a b c] d obtain bb where
    1: "bb = ''bob''" and
    2: "\<forall>e tgt path conf t w.
              map_of conf tgt = Some t \<and> get_or (subjects t) [] = [''S1'', ''bob''] \<and>
              dest_kind w \<noteq> RegularFile \<longrightarrow>
              main e tgt path conf w =
                (Inl (ValueError (''Unrecognized subject: '' @ bb)),
                 w\<lparr>dest_kind := Directory,
                   children := (if dest_kind w = Missing then [] else children w)\<rparr>)"
    by blast
  let ?t = "\<lparr>save_in = Some ''/data/fmri'', article_id = None, subjects = Some [''S1'', ''bob'']\<rparr>"
  have h: "map_of (ex_conf [''S1'', ''bob'']) ''fmri_attention'' = Some ?t \<and>
      get_or (subjects ?t) [] = [''S1'', ''bob''] \<and> dest_kind ex_world \<noteq> RegularFile"
    by (simp add: ex_conf_def get_or_def ex_world_def)
  from 2[rule_format, OF h, of "ex_env []" "''files.json''"] 1
  show ?thesis by (simp add: ex_world_def)
qed

text \<open>
  Claim C8. When the selection keeps no catalog entry the run ends normally: its only
  effects are the directory made by \<^verbatim>\<open>mkdir\<close>, the one request to the catalog API and the
  printed message. Nothing is downloaded, no child of the destination directory is removed
  and no manifest is written.
\<close>
theorem no_match_returns_cleanly:
  assumes "map_of conf tgt = Some t" and "dest_kind w \<noteq> RegularFile"
    and "select_subjects (get_or (subjects t) []) = Inr subs"
    and "api e (get_or (article_id t) 13474629) = Inr files"
    and "select_files (set subs) files = []"
  shows "main e tgt path conf w =
     (Inr (), w\<lparr>dest_kind := Directory,
                children := (if dest_kind w = Missing then [] else children w),
                http := http w @ [ApiGet (get_or (article_id t) 13474629)],
                stdout := stdout w @ [''No matching attention fMRI files found.'']\<rparr>)"
  using assms
  by (cases "dest_kind w")
     (simp_all add: main_def mkdir_p_def Let_def fetch_figshare_files_def request_def print_line_def)

theorem no_match_returns_cleanly_witness:
  "main (ex_env [ex_entry ''sub-99_other.h5'' (Some ''http://x/2'') None None]) ''fmri_attention''
        ''files.json'' (ex_conf []) ex_world =
     (Inr (), ex_world\<lparr>http := [ApiGet 13474629],
                       stdout := [''No matching attention fMRI files found.'']\<rparr>)"
proof -
  let ?e = "ex_env [ex_entry ''sub-99_other.h5'' (Some ''http://x/2'') None None]"
  have a: "map_of (ex_conf []) ''fmri_attention'' =
     Some \<lparr>save_in = Some ''/data/fmri'', article_id = None, subjects = Some []\<rparr>"
    by (simp add: ex_conf_def)
  have b: "dest_kind ex_world \<noteq> RegularFile" by (simp add: ex_world_def)
  have c: "select_subjects (get_or (subjects \<lparr>save_in = Some ''/data/fmri'', article_id = None, subjects = Some []\<rparr>) [])
     = Inr [''sub-06'', ''sub-07'', ''sub-04'', ''sub-01'']" by code_simp
  have d: "api ?e (get_or (article_id \<lparr>save_in = Some ''/data/fmri'', article_id = None, subjects = Some []\<rparr>) 13474629)
     = Inr [ex_entry ''sub-99_other.h5'' (Some ''http://x/2'') None None]"
    by (simp add: ex_env_def)
  have f: "select_files (set [''sub-06'', ''sub-07'', ''sub-04'', ''sub-01''])
     [ex_entry ''sub-99_other.h5'' (Some ''http://x/2'') None None] = []" by code_simp
  from no_match_returns_cleanly[OF a b c d f, of "''files.json''"]
  show ?thesis by (simp add: ex_world_def get_or_def)
qed


section \<open>Properties of the selection of catalog entries\<close>


lemma looks_like_nonempty: "looks_like_attention_fmri nm \<Longrightarrow> nm \<noteq> []"
  by (auto simp: looks_like_attention_fmri_def py_lower_def)

lemma kept_iff:
  "kept wanted fi =
     (has_url fi \<and> looks_like_attention_fmri (get_or (name fi) []) \<and>
      (case normalize_sub_code (get_or (name fi) []) of
         None \<Rightarrow> False
       | Some sub \<Rightarrow> sub \<in> wanted))"
  by (simp add: kept_def looks_like_attention_fmri_def Let_def conj_assoc)

lemma select_files_filter: "select_files wanted files = map annotate (filter (kept wanted) files)"
proof (induction files)
  case Nil show ?case by simp
next
  case (Cons fi files)
  show ?case
  proof (cases "kept wanted fi")
    case True
    then obtain sub where s: "normalize_sub_code (get_or (name fi) []) = Some sub" "sub \<in> wanted"
      by (auto simp: kept_iff split: option.splits)
    from True have l: "looks_like_attention_fmri (get_or (name fi) [])" and u: "has_url fi"
      by (simp_all add: kept_iff)
    from u have t: "truthy (py_or (py_or (download_url fi) (url fi)) (supplied_url fi))"
      by (auto simp: has_url_def py_or_def)
    from s truthy_normalize[of "get_or (name fi) []"]
    have tn: "truthy (normalize_sub_code (get_or (name fi) []))" by simp
    show ?thesis using True Cons.IH l t s tn looks_like_nonempty[OF l]
      by (simp add: Let_def annotate_def)
  next
    case False
    have "select_files wanted (fi # files) = select_files wanted files"
    proof (cases "has_url fi")
      case u: True
      then have t: "truthy (py_or (py_or (download_url fi) (url fi)) (supplied_url fi))"
        by (auto simp: has_url_def py_or_def)
      show ?thesis
      proof (cases "looks_like_attention_fmri (get_or (name fi) [])")
        case l: True
        with False u have "case normalize_sub_code (get_or (name fi) []) of None \<Rightarrow> True | Some sub \<Rightarrow> sub \<notin> wanted"
          by (auto simp: kept_iff split: option.splits)
        then show ?thesis using truthy_normalize[of "get_or (name fi) []"]
          by (auto simp: Let_def split: option.splits)
      next
        case l: False
        then show ?thesis by (simp add: Let_def)
      qed
    next
      case u: False
      then have "\<not> truthy (py_or (py_or (download_url fi) (url fi)) (supplied_url fi))"
        by (auto simp: has_url_def py_or_def)
      then show ?thesis by (simp add: Let_def)
    qed
    with False Cons.IH show ?thesis by simp
  qed
qed

text \<open>
  Claim C4, as it stands, fails on an entry that has no address: its name ends in
  \<^verbatim>\<open>.h5\<close>, contains both substrings and gives the wanted code \<^verbatim>\<open>sub-01\<close>, and the selection
  drops it.
\<close>
theorem select_files_ignores_missing_url:
  "looks_like_attention_fmri ''sub-01_attention_vc.h5'' \<and>
   normalize_sub_code ''sub-01_attention_vc.h5'' = Some ''sub-01'' \<and>
   select_files (set [''sub-01'']) [ex_entry ''sub-01_attention_vc.h5'' None None None] = []"
  by code_simp

text \<open>
  Claim C4, amended. The selection keeps exactly the catalog entries that carry a non-empty
  address in one of the fields \<^verbatim>\<open>download_url\<close>, \<^verbatim>\<open>url\<close>, \<^verbatim>\<open>supplied_url\<close>, whose name
  (case-insensitively) ends in \<^verbatim>\<open>.h5\<close> and contains both required substrings, and whose
  derived subject code lies in the wanted set, each annotated with that code and its short
  code. Of two entries named \<^verbatim>\<open>sub-01_attention_vc.h5\<close> (with an address) and
  \<^verbatim>\<open>sub-99_other.h5\<close> it returns only the first, annotated with \<^verbatim>\<open>sub-01\<close> and \<^verbatim>\<open>S4\<close>;
  an entry for \<^verbatim>\<open>sub-01\<close> whose name lacks the extension or one of the two substrings is
  dropped.
\<close>
theorem select_files_keeps_exactly:
  "select_files wanted files = map annotate (filter (kept wanted) files) \<and>
   (name e1 = Some ''sub-01_attention_vc.h5'' \<and> has_url e1 \<and>
    name e2 = Some ''sub-99_other.h5'' \<and> ''sub-01'' \<in> wanted \<longrightarrow>
      select_files wanted [e1, e2] = [e1\<lparr>sub_code := Some ''sub-01'', short_code := Some ''S4''\<rparr>]) \<and>
   (name e3 = Some ''sub-01_attention_vc.txt'' \<or> name e3 = Some ''sub-01_vc.h5'' \<or>
    name e3 = Some ''sub-01_attention.h5'' \<longrightarrow> select_files wanted [e3] = [])"
proof -
  have n1: "normalize_sub_code ''sub-01_attention_vc.h5'' = Some ''sub-01''" by code_simp
  have l1: "looks_like_attention_fmri ''sub-01_attention_vc.h5''" by code_simp
  have l2: "\<not> looks_like_attention_fmri ''sub-99_other.h5''" by code_simp
  have m: "map_of SUB_TO_S ''sub-01'' = Some ''S4''" by code_simp
  have a: "select_files wanted [e1, e2] = [e1\<lparr>sub_code := Some ''sub-01'', short_code := Some ''S4''\<rparr>]"
    if "name e1 = Some ''sub-01_attention_vc.h5''" "has_url e1" "name e2 = Some ''sub-99_other.h5''"
       "''sub-01'' \<in> wanted"
    unfolding select_files_filter using that n1 l1 l2 m
    by (simp add: kept_iff annotate_def get_or_def)
  have l3: "\<not> looks_like_attention_fmri ''sub-01_attention_vc.txt''"
    "\<not> looks_like_attention_fmri ''sub-01_vc.h5''"
    "\<not> looks_like_attention_fmri ''sub-01_attention.h5''" by code_simp+
  have b: "select_files wanted [e3] = []"
    if "name e3 = Some ''sub-01_attention_vc.txt'' \<or> name e3 = Some ''sub-01_vc.h5'' \<or>
        name e3 = Some ''sub-01_attention.h5''"
  proof -
    from that l3 have "\<not> looks_like_attention_fmri (get_or (name e3) [])"
      by (auto simp: get_or_def)
    then show ?thesis unfolding select_files_filter by (simp add: kept_iff)
  qed
  from a b show ?thesis using select_files_filter by blast
qed

theorem select_files_keeps_exactly_witness:
  "select_files (set [''sub-01'', ''sub-06''])
     [ex_entry ''sub-01_attention_vc.h5'' None (Some ''http://x/1'') None,
      ex_entry ''sub-99_other.h5'' (Some ''http://x/2'') None None] =
   [(ex_entry ''sub-01_attention_vc.h5'' None (Some ''http://x/1'') None)
      \<lparr>sub_code := Some ''sub-01'', short_code := Some ''S4''\<rparr>]"
proof -
  let ?e1 = "ex_entry ''sub-01_attention_vc.h5'' None (Some ''http://x/1'') None"
  let ?e2 = "ex_entry ''sub-99_other.h5'' (Some ''http://x/2'') None None"
  have h: "name ?e1 = Some ''sub-01_attention_vc.h5'' \<and> has_url ?e1 \<and>
    name ?e2 = Some ''sub-99_other.h5'' \<and> ''sub-01'' \<in> set [''sub-01'', ''sub-06'']"
    by (simp add: ex_entry_def has_url_def truthy_def)
  from select_files_keeps_exactly[of "set [''sub-01'', ''sub-06'']" _ ?e1 ?e2] h
  show ?thesis by blast
qed

text \<open>
  Claim C2 against the code: a catalog entry whose address is in the field \<^verbatim>\<open>url\<close> only is
  kept by the selection, and the download loop then reads \<^verbatim>\<open>fi["download_url"]\<close>, which
  raises \<^verbatim>\<open>KeyError\<close>; the run ends there, after the request to the catalog API, with nothing
  downloaded.
\<close>
theorem url_only_entry_fails:
  "select_files (set [''sub-06'', ''sub-07'', ''sub-04'', ''sub-01'']) ex_url_only =
     [(ex_entry ''sub-01_attention_vc.h5'' None (Some ''http://x/1'') None)
        \<lparr>sub_code := Some ''sub-01'', short_code := Some ''S4''\<rparr>] \<and>
   main (ex_env ex_url_only) ''fmri_attention'' ''files.json'' (ex_conf []) ex_world =
     (Inl (KeyError ''download_url''), ex_world\<lparr>http := [ApiGet 13474629]\<rparr>)"
  by code_simp


section \<open>Properties of the download loop\<close>


lemma exists_child_iff: "exists_child w n \<longleftrightarrow> n \<in> fst ` set (children w)"
  by (simp add: exists_child_def map_of_eq_None_iff)

lemma retrievals_append: "retrievals n (xs @ ys) = retrievals n xs @ retrievals n ys"
  by (induction n xs rule: retrievals.induct) auto

lemma process_file_Inr:
  assumes "process_file e root fi w = (Inr r, w')"
  shows "name fi \<noteq> None \<and> download_url fi \<noteq> None \<and> short_code fi \<noteq> None"
    and "r = mrec_of e root w' fi"
    and "map_of (children w') =
           (if exists_child w (out_name fi) then map_of (children w)
            else (map_of (children w))(out_name fi \<mapsto> File (the (remote e (the (download_url fi))))))"
    and "exists_child w (out_name fi) \<or> remote e (the (download_url fi)) \<noteq> None"
    and "http w' = http w @
           (if exists_child w (out_name fi) then []
            else (if tqdm e then [UrlOpen (the (download_url fi))] else [])
                 @ [UrlRetrieve (the (download_url fi)) (out_name fi)])"
    and "dest_kind w' = dest_kind w"
    and "\<exists>ls. stdout w' = stdout w @ ls"
    and "\<And>h. truthy (md5 fi) \<Longrightarrow> local_md5 e w' (out_name fi) = Some h \<Longrightarrow> Some h \<noteq> md5 fi \<Longrightarrow>
           mismatch_line (the (name fi)) (the (md5 fi)) h \<in> set (stdout w')"
proof -
  from assms obtain nm u S where f: "name fi = Some nm" "download_url fi = Some u" "short_code fi = Some S"
    by (auto simp: process_file_def split: option.splits)
  define n where "n = S @ ''_attention.h5''"
  define p where "p = joinpath root n"
  have on: "out_name fi = n" by (simp add: out_name_def f n_def)
  obtain res w1 where d: "download_if_missing e nm u p n w = (res, w1)"
    by (cases "download_if_missing e nm u p n w") auto
  obtain l w2 where v: "verify_md5 e nm (md5 fi) p n w1 = (l, w2)"
    by (cases "verify_md5 e nm (md5 fi) p n w1") auto
  from assms f d v have res: "res = Inr ()" and w2: "w2 = w'"
    and r: "r = \<lparr>api_name = nm, saved_as = p, subject_S = S, rec_download_url = u,
                  md5_remote = md5 fi, md5_local = l\<rparr>"
    by (auto simp: process_file_def Let_def n_def p_def split: sum.splits)
  note vf = verify_md5_frame[OF v, unfolded w2]
  have w1: "map_of (children w1) =
           (if exists_child w n then map_of (children w)
            else (map_of (children w))(n \<mapsto> File (the (remote e u))))
         \<and> (exists_child w n \<or> remote e u \<noteq> None)
         \<and> http w1 = http w @
           (if exists_child w n then []
            else (if tqdm e then [UrlOpen u] else []) @ [UrlRetrieve u n])
         \<and> dest_kind w1 = dest_kind w \<and> (\<exists>ls. stdout w1 = stdout w @ ls)"
  proof (cases "exists_child w n")
    case True
    with d res show ?thesis by (auto simp: download_if_missing_exists)
  next
    case False
    with d res show ?thesis
      by (auto simp: download_if_missing_new Let_def update_conv' split: option.splits)
  qed
  show "name fi \<noteq> None \<and> download_url fi \<noteq> None \<and> short_code fi \<noteq> None" using f by simp
  from vf have lm: "l = local_md5 e w1 n" and ch: "children w' = children w1" by simp_all
  then have "local_md5 e w1 n = local_md5 e w' n" by (simp add: local_md5_def)
  with lm r show "r = mrec_of e root w' fi" by (simp add: mrec_of_def f on p_def)
  from w1 ch show "map_of (children w') =
           (if exists_child w (out_name fi) then map_of (children w)
            else (map_of (children w))(out_name fi \<mapsto> File (the (remote e (the (download_url fi))))))"
    by (simp add: on f)
  from w1 show "exists_child w (out_name fi) \<or> remote e (the (download_url fi)) \<noteq> None"
    by (simp add: on f)
  from w1 vf show "http w' = http w @
           (if exists_child w (out_name fi) then []
            else (if tqdm e then [UrlOpen (the (download_url fi))] else [])
                 @ [UrlRetrieve (the (download_url fi)) (out_name fi)])"
    by (simp add: on f)
  from w1 vf show "dest_kind w' = dest_kind w" by simp
  from w1 vf show "\<exists>ls. stdout w' = stdout w @ ls" by auto
  show "mismatch_line (the (name fi)) (the (md5 fi)) h \<in> set (stdout w')"
    if "truthy (md5 fi)" "local_md5 e w' (out_name fi) = Some h" "Some h \<noteq> md5 fi" for h
  proof -
    from that(2) lm \<open>local_md5 e w1 n = local_md5 e w' n\<close> have "l = Some h" by (simp add: on)
    with vf that show ?thesis by (simp add: f)
  qed
qed

lemma process_file_exists_after:
  assumes "process_file e root fi w = (Inr r, w')"
  shows "exists_child w' (out_name fi)"
  using process_file_Inr(3)[OF assms] by (auto simp: exists_child_def)

lemma process_file_keeps:
  assumes "process_file e root fi w = (Inr r, w')" and "exists_child w m"
  shows "map_of (children w') m = map_of (children w) m"
  using process_file_Inr(3)[OF assms(1)] assms(2) by (auto simp: exists_child_def)

lemma process_file_total:
  assumes "name fi = Some nm" and "download_url fi = Some u" and "short_code fi = Some S"
    and "exists_child w (out_name fi) \<or> remote e u \<noteq> None"
  shows "\<exists>r w'. process_file e root fi w = (Inr r, w')"
proof (cases "exists_child w (S @ ''_attention.h5'')")
  case True
  then show ?thesis using assms(1-3)
    by (auto simp: process_file_def Let_def download_if_missing_exists split: prod.splits)
next
  case False
  with assms(3,4) obtain b where "remote e u = Some b" by (auto simp: out_name_def)
  with False show ?thesis using assms(1-3)
    by (auto simp: process_file_def Let_def download_if_missing_new split: prod.splits)
qed

lemma download_all_Cons_Inr:
  "download_all e root (fi # fis) w = (Inr rs, w') \<Longrightarrow>
   \<exists>r w1 rs'. process_file e root fi w = (Inr r, w1) \<and>
      download_all e root fis w1 = (Inr rs', w') \<and> rs = r # rs'"
  by (auto split: prod.splits sum.splits)

lemma download_all_keeps:
  "download_all e root fis w = (Inr rs, w') \<Longrightarrow> exists_child w m \<Longrightarrow>
   map_of (children w') m = map_of (children w) m"
proof (induction fis arbitrary: w rs)
  case Nil then show ?case by simp
next
  case (Cons fi fis)
  from download_all_Cons_Inr[OF Cons.prems(1)] obtain r w1 rs'
    where s: "process_file e root fi w = (Inr r, w1)"
      and t: "download_all e root fis w1 = (Inr rs', w')" by blast
  from process_file_keeps[OF s Cons.prems(2)] have k: "map_of (children w1) m = map_of (children w) m" .
  with Cons.prems(2) have "exists_child w1 m" by (simp add: exists_child_def)
  from Cons.IH[OF t this] k show ?case by simp
qed

lemma download_all_new_names:
  "download_all e root fis w = (Inr rs, w') \<Longrightarrow> exists_child w' m \<Longrightarrow>
   exists_child w m \<or> m \<in> out_name ` set fis"
proof (induction fis arbitrary: w rs)
  case Nil then show ?case by simp
next
  case (Cons fi fis)
  from download_all_Cons_Inr[OF Cons.prems(1)] obtain r w1 rs'
    where s: "process_file e root fi w = (Inr r, w1)"
      and t: "download_all e root fis w1 = (Inr rs', w')" by blast
  from Cons.IH[OF t Cons.prems(2)] have "exists_child w1 m \<or> m \<in> out_name ` set fis" .
  moreover have "exists_child w m \<or> m = out_name fi" if "exists_child w1 m"
    using that process_file_Inr(3)[OF s] by (auto simp: exists_child_def split: if_splits)
  ultimately show ?case by auto
qed

lemma download_all_dir:
  "download_all e root fis w = (Inr rs, w') \<Longrightarrow> map_of (children w') m = Some Dir \<Longrightarrow>
   map_of (children w) m = Some Dir"
proof (induction fis arbitrary: w rs)
  case Nil then show ?case by simp
next
  case (Cons fi fis)
  from download_all_Cons_Inr[OF Cons.prems(1)] obtain r w1 rs'
    where s: "process_file e root fi w = (Inr r, w1)"
      and t: "download_all e root fis w1 = (Inr rs', w')" by blast
  from Cons.IH[OF t Cons.prems(2)] have "map_of (children w1) m = Some Dir" .
  with process_file_Inr(3)[OF s] show ?case by (auto split: if_splits)
qed

lemma download_all_present:
  "download_all e root fis w = (Inr rs, w') \<Longrightarrow> fi \<in> set fis \<Longrightarrow> exists_child w' (out_name fi)"
proof (induction fis arbitrary: w rs)
  case Nil then show ?case by simp
next
  case (Cons f fis)
  from download_all_Cons_Inr[OF Cons.prems(1)] obtain r w1 rs'
    where s: "process_file e root f w = (Inr r, w1)"
      and t: "download_all e root fis w1 = (Inr rs', w')" by blast
  show ?case
  proof (cases "fi = f")
    case True
    from process_file_exists_after[OF s] have x: "exists_child w1 (out_name f)" .
    from download_all_keeps[OF t x] x True show ?thesis by (simp add: exists_child_def)
  next
    case False
    with Cons.prems(2) have "fi \<in> set fis" by simp
    from Cons.IH[OF t this] show ?thesis .
  qed
qed

lemma download_all_records:
  "download_all e root fis w = (Inr rs, w') \<Longrightarrow> rs = map (mrec_of e root w') fis"
proof (induction fis arbitrary: w rs)
  case Nil then show ?case by simp
next
  case (Cons fi fis)
  from download_all_Cons_Inr[OF Cons.prems(1)] obtain r w1 rs'
    where s: "process_file e root fi w = (Inr r, w1)"
      and t: "download_all e root fis w1 = (Inr rs', w')" and rs: "rs = r # rs'" by blast
  from process_file_exists_after[OF s] have x: "exists_child w1 (out_name fi)" .
  from download_all_keeps[OF t x] have "local_md5 e w' (out_name fi) = local_md5 e w1 (out_name fi)"
    by (simp add: local_md5_def)
  with process_file_Inr(2)[OF s] have "r = mrec_of e root w' fi" by (simp add: mrec_of_def)
  with Cons.IH[OF t] rs show ?case by simp
qed

lemma download_all_frame:
  "download_all e root fis w = (Inr rs, w') \<Longrightarrow>
   dest_kind w' = dest_kind w \<and> (\<exists>ls. stdout w' = stdout w @ ls)"
proof (induction fis arbitrary: w rs)
  case Nil then show ?case by simp
next
  case (Cons fi fis)
  from download_all_Cons_Inr[OF Cons.prems(1)] obtain r w1 rs'
    where s: "process_file e root fi w = (Inr r, w1)"
      and t: "download_all e root fis w1 = (Inr rs', w')" by blast
  from Cons.IH[OF t] process_file_Inr(6,7)[OF s] show ?case by auto
qed

lemma download_all_fields:
  "download_all e root fis w = (Inr rs, w') \<Longrightarrow> fi \<in> set fis \<Longrightarrow>
   name fi \<noteq> None \<and> download_url fi \<noteq> None \<and> short_code fi \<noteq> None"
proof (induction fis arbitrary: w rs)
  case Nil then show ?case by simp
next
  case (Cons f fis)
  from download_all_Cons_Inr[OF Cons.prems(1)] obtain r w1 rs'
    where s: "process_file e root f w = (Inr r, w1)"
      and t: "download_all e root fis w1 = (Inr rs', w')" by blast
  from Cons.IH[OF t] process_file_Inr(1)[OF s] Cons.prems(2) show ?case by auto
qed

lemma download_all_mismatch_logged:
  "download_all e root fis w = (Inr rs, w') \<Longrightarrow> fi \<in> set fis \<Longrightarrow> truthy (md5 fi) \<Longrightarrow>
   local_md5 e w' (out_name fi) = Some h \<Longrightarrow> Some h \<noteq> md5 fi \<Longrightarrow>
   mismatch_line (the (name fi)) (the (md5 fi)) h \<in> set (stdout w')"
proof (induction fis arbitrary: w rs)
  case Nil then show ?case by simp
next
  case (Cons f fis)
  from download_all_Cons_Inr[OF Cons.prems(1)] obtain r w1 rs'
    where s: "process_file e root f w = (Inr r, w1)"
      and t: "download_all e root fis w1 = (Inr rs', w')" by blast
  show ?case
  proof (cases "fi = f")
    case True
    from process_file_exists_after[OF s] have x: "exists_child w1 (out_name f)" .
    from download_all_keeps[OF t x] have "local_md5 e w1 (out_name f) = local_md5 e w' (out_name f)"
      by (simp add: local_md5_def)
    with Cons.prems(4) True have "local_md5 e w1 (out_name f) = Some h" by simp
    from process_file_Inr(8)[OF s _ this] Cons.prems(3,5) True
    have "mismatch_line (the (name fi)) (the (md5 fi)) h \<in> set (stdout w1)" by simp
    moreover from download_all_frame[OF t] obtain ls where "stdout w' = stdout w1 @ ls" by blast
    ultimately show ?thesis by simp
  next
    case False
    with Cons.prems(2) have "fi \<in> set fis" by simp
    from Cons.IH[OF t this Cons.prems(3,4,5)] show ?thesis .
  qed
qed

lemma download_all_retrievals:
  "download_all e root fis w = (Inr rs, w') \<Longrightarrow>
   retrievals n (http w') = retrievals n (http w) @
     (if exists_child w n then []
      else (case find (\<lambda>fi. out_name fi = n) fis of
              None \<Rightarrow> []
            | Some fi \<Rightarrow> [the (download_url fi)]))"
proof (induction fis arbitrary: w rs)
  case Nil then show ?case by simp
next
  case (Cons fi fis)
  from download_all_Cons_Inr[OF Cons.prems(1)] obtain r w1 rs'
    where s: "process_file e root fi w = (Inr r, w1)"
      and t: "download_all e root fis w1 = (Inr rs', w')" by blast
  note ih = Cons.IH[OF t]
  note h = process_file_Inr(5)[OF s]
  note m = process_file_Inr(3)[OF s]
  show ?case
  proof (cases "exists_child w n")
    case True
    with process_file_keeps[OF s True] have x1: "exists_child w1 n" by (simp add: exists_child_def)
    have "retrievals n (http w1) = retrievals n (http w)"
      using h True by (auto simp: retrievals_append)
    with ih x1 True show ?thesis by simp
  next
    case False
    show ?thesis
    proof (cases "out_name fi = n")
      case True
      with process_file_exists_after[OF s] have x1: "exists_child w1 n" by simp
      have "retrievals n (http w1) = retrievals n (http w) @ [the (download_url fi)]"
        using h False True by (auto simp: retrievals_append)
      with ih x1 False True show ?thesis by simp
    next
      case ne: False
      have x1: "\<not> exists_child w1 n" using m False ne by (auto simp: exists_child_def)
      have "retrievals n (http w1) = retrievals n (http w)"
        using h ne by (auto simp: retrievals_append)
      with ih x1 False ne show ?thesis by simp
    qed
  qed
qed

lemma download_all_total:
  "\<forall>fi\<in>set fis. name fi \<noteq> None \<and> short_code fi \<noteq> None \<and>
      (\<exists>u. download_url fi = Some u \<and> remote e u \<noteq> None) \<Longrightarrow>
   \<exists>rs w'. download_all e root fis w = (Inr rs, w')"
proof (induction fis arbitrary: w)
  case Nil then show ?case by simp
next
  case (Cons fi fis)
  from Cons.prems obtain nm S u where "name fi = Some nm" "short_code fi = Some S"
    "download_url fi = Some u" "remote e u \<noteq> None" by auto
  from process_file_total[OF this(1,3,2), of w e root] this(4)
  obtain r w1 where s: "process_file e root fi w = (Inr r, w1)" by blast
  from Cons.IH[of w1] Cons.prems obtain rs w' where "download_all e root fis w1 = (Inr rs, w')"
    by auto
  with s show ?case by simp
qed


section \<open>Properties of the pruning loop\<close>


lemma prune_Cons_outside:
  assumes "p \<notin> allowed"
  shows "prune e root (p # ps) acc w =
     prune e root ps (if listed e w p then acc @ [p] else acc)
       (if locked e p then w else w\<lparr>children := AList.delete p (children w)\<rparr>)"
proof (cases "map_of (children w) p")
  case None
  then have "p \<notin> fst ` set (children w)" by (simp add: map_of_eq_None_iff)
  then have "AList.delete p (children w) = children w" by simp
  with None assms show ?thesis
    by (simp add: is_dir_def unlink_def listed_def)
next
  case (Some nd)
  show ?thesis
  proof (cases nd)
    case (File b)
    with Some assms show ?thesis by (simp add: is_dir_def unlink_def listed_def)
  next
    case Dir
    with Some assms show ?thesis by (simp add: is_dir_def rmtree_ignore_errors_def listed_def)
  qed
qed

lemma prune_frame:
  "prune e root ps acc w = (prn, w') \<Longrightarrow>
   http w' = http w \<and> stdout w' = stdout w \<and> dest_kind w' = dest_kind w"
proof (induction ps arbitrary: acc w)
  case Nil then show ?case by simp
next
  case (Cons p ps)
  show ?case
  proof (cases "p \<in> allowed")
    case True with Cons show ?thesis by simp
  next
    case False
    from Cons.prems[unfolded prune_Cons_outside[OF False]] Cons.IH show ?thesis
      by (cases "locked e p") fastforce+
  qed
qed

lemma prune_map:
  "prune e root ps acc w = (prn, w') \<Longrightarrow>
   map_of (children w') m =
     (if m \<in> set ps \<and> m \<notin> allowed \<and> \<not> locked e m then None else map_of (children w) m)"
proof (induction ps arbitrary: acc w)
  case Nil then show ?case by simp
next
  case (Cons p ps)
  show ?case
  proof (cases "p \<in> allowed")
    case True
    with Cons.prems have "prune e root ps acc w = (prn, w')" by simp
    from Cons.IH[OF this] True show ?thesis by auto
  next
    case False
    define w1 where "w1 = (if locked e p then w else w\<lparr>children := AList.delete p (children w)\<rparr>)"
    define acc1 where "acc1 = (if listed e w p then acc @ [p] else acc)"
    from Cons.prems have pr: "prune e root ps acc1 w1 = (prn, w')"
      unfolding prune_Cons_outside[OF False] w1_def acc1_def .
    have m1: "map_of (children w1) m = (if m = p \<and> \<not> locked e p then None else map_of (children w) m)"
      by (simp add: w1_def delete_conv')
    from Cons.IH[OF pr] m1 False show ?thesis by auto
  qed
qed

lemma prune_names:
  "prune e root ps acc w = (prn, w') \<Longrightarrow>
   set prn = set acc \<union> {p \<in> set ps. p \<notin> allowed \<and> listed e w p}"
proof (induction ps arbitrary: acc w)
  case Nil then show ?case by simp
next
  case (Cons p ps)
  show ?case
  proof (cases "p \<in> allowed")
    case True
    with Cons.prems have "prune e root ps acc w = (prn, w')" by simp
    from Cons.IH[OF this] True show ?thesis by auto
  next
    case False
    define w1 where "w1 = (if locked e p then w else w\<lparr>children := AList.delete p (children w)\<rparr>)"
    define acc1 where "acc1 = (if listed e w p then acc @ [p] else acc)"
    from Cons.prems have pr: "prune e root ps acc1 w1 = (prn, w')"
      unfolding prune_Cons_outside[OF False] w1_def acc1_def .
    have m1: "map_of (children w1) q = (if q = p \<and> \<not> locked e p then None else map_of (children w) q)" for q
      by (simp add: w1_def delete_conv')
    have l1: "listed e w1 q = listed e w q" if "q \<noteq> p" for q
      using that m1[of q] by (simp add: listed_def)
    have l2: "listed e w1 p \<Longrightarrow> listed e w p"
      using m1[of p] by (cases "locked e p") (simp_all add: listed_def)
    have a1: "set acc1 = set acc \<union> (if listed e w p then {p} else {})"
      by (simp add: acc1_def)
    note ih = Cons.IH[OF pr]
    show ?thesis
    proof (rule set_eqI)
      fix x
      show "x \<in> set prn \<longleftrightarrow> x \<in> set acc \<union> {q \<in> set (p # ps). q \<notin> allowed \<and> listed e w q}"
      proof (cases "x = p")
        case True
        with ih a1 l2 False show ?thesis by auto
      next
        case ne: False
        with ih a1 l1[OF ne] show ?thesis by auto
      qed
    qed
  qed
qed


section \<open>The entries that the selection keeps\<close>


lemma out_name_allowed:
  assumes "fi \<in> set (select_files wanted files)"
  shows "out_name fi \<in> allowed \<and> out_name fi \<noteq> manifest_name \<and> name fi \<noteq> None \<and>
     short_code fi \<noteq> None \<and> sub_code fi \<in> Some ` set (map fst SUB_TO_S) \<and>
     short_code fi = Some (get_or (map_of SUB_TO_S (the (sub_code fi))) ''Sx'')"
proof -
  from assms obtain f where f: "kept wanted f" "fi = annotate f"
    by (auto simp: select_files_filter)
  then obtain sub where s: "normalize_sub_code (get_or (name f) []) = Some sub"
    by (auto simp: kept_iff split: option.splits)
  from normalize_sub_code_range[OF s] have r: "sub \<in> set (map fst SUB_TO_S)" .
  from f have "looks_like_attention_fmri (get_or (name f) [])" by (simp add: kept_iff)
  from looks_like_nonempty[OF this] have n: "name f \<noteq> None"
    by (cases "name f") (simp_all add: get_or_def)
  have "\<forall>sub\<in>set (map fst SUB_TO_S).
      get_or (map_of SUB_TO_S sub) ''Sx'' @ ''_attention.h5'' \<in> allowed
      \<and> get_or (map_of SUB_TO_S sub) ''Sx'' @ ''_attention.h5'' \<noteq> manifest_name"
    by code_simp
  with r have "get_or (map_of SUB_TO_S sub) ''Sx'' @ ''_attention.h5'' \<in> allowed
      \<and> get_or (map_of SUB_TO_S sub) ''Sx'' @ ''_attention.h5'' \<noteq> manifest_name"
    by blast
  with f s r n show ?thesis by (simp add: annotate_def out_name_def)
qed

lemma short_code_inj:
  assumes "a \<in> set (map fst SUB_TO_S)" and "b \<in> set (map fst SUB_TO_S)"
    and "get_or (map_of SUB_TO_S a) ''Sx'' = get_or (map_of SUB_TO_S b) ''Sx''"
  shows "a = b"
proof -
  have "\<forall>a\<in>set (map fst SUB_TO_S). \<forall>b\<in>set (map fst SUB_TO_S).
      get_or (map_of SUB_TO_S a) ''Sx'' = get_or (map_of SUB_TO_S b) ''Sx'' \<longrightarrow> a = b"
    by code_simp
  with assms show ?thesis by blast
qed


section \<open>The run after the selection\<close>

lemma main_unfold:
  assumes "map_of conf tgt = Some t" and "dest_kind w \<noteq> RegularFile"
    and "select_subjects (get_or (subjects t) []) = Inr subs"
    and "api e (get_or (article_id t) 13474629) = Inr files"
    and "select_files (set subs) files \<noteq> []"
  shows "\<exists>w2. dest_kind w2 = Directory
    \<and> children w2 = (if dest_kind w = Missing then [] else children w)
    \<and> http w2 = http w @ [ApiGet (get_or (article_id t) 13474629)]
    \<and> stdout w2 = stdout w
    \<and> main e tgt path conf w =
     (case download_all e (resolve e (get_or (save_in t) ''./fmri/test_attention''))
             (select_files (set subs) files) w2 of
        (Inl err, w3) \<Rightarrow> (Inl err, w3)
      | (Inr manifest, w3) \<Rightarrow>
         (case prune e (resolve e (get_or (save_in t) ''./fmri/test_attention''))
                 (map fst (children w3)) [] w3 of
            (prn, w4) \<Rightarrow>
              if is_dir w4 manifest_name then
                (Inl (IsADirectoryError
                   (joinpath (resolve e (get_or (save_in t) ''./fmri/test_attention'')) manifest_name)), w4)
              else (Inr (), report (resolve e (get_or (save_in t) ''./fmri/test_attention'')) prn
                     (w4\<lparr>children := AList.update manifest_name
                        (File (json_dumps e
                           \<lparr>figshare_article_id = get_or (article_id t) 13474629,
                            doc_dest_root = resolve e (get_or (save_in t) ''./fmri/test_attention''),
                            S_to_sub = S_TO_SUB, sub_to_S = SUB_TO_S,
                            downloaded = manifest, pruned = prn\<rparr>)) (children w4)\<rparr>))))"
proof -
  define root where "root = resolve e (get_or (save_in t) ''./fmri/test_attention'')"
  define w1 where "w1 = snd (mkdir_p root w)"
  have mk: "mkdir_p root w = (Inr (), w1)"
    using assms(2) unfolding w1_def by (cases "dest_kind w") (simp_all add: mkdir_p_def)
  have w1: "dest_kind w1 = Directory" "children w1 = (if dest_kind w = Missing then [] else children w)"
       "http w1 = http w" "stdout w1 = stdout w"
    using assms(2) unfolding w1_def by (cases "dest_kind w"; simp add: mkdir_p_def)+
  define w2 where "w2 = request (ApiGet (get_or (article_id t) 13474629)) w1"
  have f: "fetch_figshare_files e (get_or (article_id t) 13474629) w1 = (Inr files, w2)"
    by (simp add: fetch_figshare_files_def assms(4) w2_def)
  define chosen where "chosen = select_files (set subs) files"
  have ne: "chosen \<noteq> []" using assms(5) by (simp add: chosen_def)
  have m: "main e tgt path conf w =
     (case download_all e root chosen w2 of
        (Inl err, w3) \<Rightarrow> (Inl err, w3)
      | (Inr manifest, w3) \<Rightarrow>
         (case prune e root (map fst (children w3)) [] w3 of
            (prn, w4) \<Rightarrow>
              if is_dir w4 manifest_name then
                (Inl (IsADirectoryError (joinpath root manifest_name)), w4)
              else (Inr (), report root prn
                     (w4\<lparr>children := AList.update manifest_name
                        (File (json_dumps e
                           \<lparr>figshare_article_id = get_or (article_id t) 13474629,
                            doc_dest_root = root,
                            S_to_sub = S_TO_SUB, sub_to_S = SUB_TO_S,
                            downloaded = manifest, pruned = prn\<rparr>)) (children w4)\<rparr>))))"
  proof (cases "download_all e root chosen w2")
    case (Pair res w3)
    show ?thesis
    proof (cases res)
      case (Inl err)
      with Pair show ?thesis unfolding main_def
        by (simp add: assms(1,3) ne Let_def mk f flip: root_def chosen_def)
    next
      case (Inr manifest)
      obtain prn w4 where pr: "prune e root (map fst (children w3)) [] w3 = (prn, w4)"
        by (cases "prune e root (map fst (children w3)) [] w3") auto
      show ?thesis unfolding main_def using Pair Inr pr
        by (simp add: assms(1,3) ne Let_def mk f write_text_def flip: root_def chosen_def)
    qed
  qed
  show ?thesis
    by (rule exI[of _ w2]) (simp add: w2_def request_def w1 m[unfolded root_def chosen_def])
qed


lemma report_frame:
  "children (report root prn w) = children w \<and> http (report root prn w) = http w \<and>
   dest_kind (report root prn w) = dest_kind w \<and>
   (\<exists>ls. stdout (report root prn w) = stdout w @ ls)"
  by (simp add: report_def)

text \<open>What a completed run with a non-empty selection consists of.\<close>

lemma main_completed:
  assumes "main e tgt path conf w = (Inr (), w')"
    and "map_of conf tgt = Some t"
    and "select_subjects (get_or (subjects t) []) = Inr subs"
    and "api e (get_or (article_id t) 13474629) = Inr files"
    and "select_files (set subs) files \<noteq> []"
  obtains w2 rs w3 prn w4 where "dest_kind w \<noteq> RegularFile" and "dest_kind w2 = Directory"
    and "children w2 = (if dest_kind w = Missing then [] else children w)"
    and "http w2 = http w @ [ApiGet (get_or (article_id t) 13474629)]"
    and "stdout w2 = stdout w"
    and "download_all e (resolve e (get_or (save_in t) ''./fmri/test_attention''))
           (select_files (set subs) files) w2 = (Inr rs, w3)"
    and "prune e (resolve e (get_or (save_in t) ''./fmri/test_attention''))
           (map fst (children w3)) [] w3 = (prn, w4)"
    and "\<not> is_dir w4 manifest_name"
    and "w' = report (resolve e (get_or (save_in t) ''./fmri/test_attention'')) prn
                 (w4\<lparr>children := AList.update manifest_name
                    (File (json_dumps e
                       \<lparr>figshare_article_id = get_or (article_id t) 13474629,
                        doc_dest_root = resolve e (get_or (save_in t) ''./fmri/test_attention''),
                        S_to_sub = S_TO_SUB, sub_to_S = SUB_TO_S,
                        downloaded = rs, pruned = prn\<rparr>)) (children w4)\<rparr>)"
proof -
  have nf: "dest_kind w \<noteq> RegularFile"
  proof
    assume "dest_kind w = RegularFile"
    with assms(2) have "fst (main e tgt path conf w) = Inl (FileExistsError (resolve e (get_or (save_in t) ''./fmri/test_attention'')))"
      by (simp add: main_def mkdir_p_def Let_def)
    with assms(1) show False by simp
  qed
  from main_unfold[OF assms(2) nf assms(3,4,5), of path]
  obtain w2 where w2: "dest_kind w2 = Directory"
    "children w2 = (if dest_kind w = Missing then [] else children w)"
    "http w2 = http w @ [ApiGet (get_or (article_id t) 13474629)]"
    "stdout w2 = stdout w"
    and m: "main e tgt path conf w =
     (case download_all e (resolve e (get_or (save_in t) ''./fmri/test_attention''))
             (select_files (set subs) files) w2 of
        (Inl err, w3) \<Rightarrow> (Inl err, w3)
      | (Inr manifest, w3) \<Rightarrow>
         (case prune e (resolve e (get_or (save_in t) ''./fmri/test_attention''))
                 (map fst (children w3)) [] w3 of
            (prn, w4) \<Rightarrow>
              if is_dir w4 manifest_name then
                (Inl (IsADirectoryError
                   (joinpath (resolve e (get_or (save_in t) ''./fmri/test_attention'')) manifest_name)), w4)
              else (Inr (), report (resolve e (get_or (save_in t) ''./fmri/test_attention'')) prn
                     (w4\<lparr>children := AList.update manifest_name
                        (File (json_dumps e
                           \<lparr>figshare_article_id = get_or (article_id t) 13474629,
                            doc_dest_root = resolve e (get_or (save_in t) ''./fmri/test_attention''),
                            S_to_sub = S_TO_SUB, sub_to_S = SUB_TO_S,
                            downloaded = manifest, pruned = prn\<rparr>)) (children w4)\<rparr>))))"
    by blast
  define root where "root = resolve e (get_or (save_in t) ''./fmri/test_attention'')"
  obtain res w3 where d: "download_all e root (select_files (set subs) files) w2 = (res, w3)"
    by (cases "download_all e root (select_files (set subs) files) w2") auto
  obtain prn w4 where p: "prune e root (map fst (children w3)) [] w3 = (prn, w4)"
    by (cases "prune e root (map fst (children w3)) [] w3") auto
  from assms(1) m d have "\<exists>rs. res = Inr rs"
    unfolding root_def by (cases res) simp_all
  then obtain rs where rs: "res = Inr rs" by blast
  from assms(1) m d p rs have nd: "\<not> is_dir w4 manifest_name"
    unfolding root_def by (cases "is_dir w4 manifest_name") simp_all
  from assms(1) m d p rs nd have w': "w' = report root prn
                 (w4\<lparr>children := AList.update manifest_name
                    (File (json_dumps e
                       \<lparr>figshare_article_id = get_or (article_id t) 13474629,
                        doc_dest_root = root,
                        S_to_sub = S_TO_SUB, sub_to_S = SUB_TO_S,
                        downloaded = rs, pruned = prn\<rparr>)) (children w4)\<rparr>)"
    unfolding root_def by simp
  show thesis
    using that[OF nf w2 d[unfolded rs root_def] p[unfolded root_def] nd w'[unfolded root_def]] .
qed

lemma main_total:
  assumes "map_of conf tgt = Some t" and "dest_kind w \<noteq> RegularFile"
    and "select_subjects (get_or (subjects t) []) = Inr subs"
    and "api e (get_or (article_id t) 13474629) = Inr files"
    and "select_files (set subs) files \<noteq> []"
    and "\<forall>fi\<in>set (select_files (set subs) files). \<exists>u. download_url fi = Some u \<and> remote e u \<noteq> None"
    and "dest_kind w = Directory \<longrightarrow> \<not> is_dir w manifest_name"
  shows "\<exists>w'. main e tgt path conf w = (Inr (), w')"
proof -
  define root where "root = resolve e (get_or (save_in t) ''./fmri/test_attention'')"
  define chosen where "chosen = select_files (set subs) files"
  from main_unfold[OF assms(1-5), of path, folded root_def chosen_def]
  obtain w2 where w2: "dest_kind w2 = Directory"
    "children w2 = (if dest_kind w = Missing then [] else children w)"
    and m: "main e tgt path conf w =
     (case download_all e root chosen w2 of
        (Inl err, w3) \<Rightarrow> (Inl err, w3)
      | (Inr manifest, w3) \<Rightarrow>
         (case prune e root (map fst (children w3)) [] w3 of
            (prn, w4) \<Rightarrow>
              if is_dir w4 manifest_name then
                (Inl (IsADirectoryError (joinpath root manifest_name)), w4)
              else (Inr (), report root prn
                     (w4\<lparr>children := AList.update manifest_name
                        (File (json_dumps e
                           \<lparr>figshare_article_id = get_or (article_id t) 13474629,
                            doc_dest_root = root,
                            S_to_sub = S_TO_SUB, sub_to_S = SUB_TO_S,
                            downloaded = manifest, pruned = prn\<rparr>)) (children w4)\<rparr>))))"
    by blast
  have "\<forall>fi\<in>set chosen. name fi \<noteq> None \<and> short_code fi \<noteq> None \<and>
      (\<exists>u. download_url fi = Some u \<and> remote e u \<noteq> None)"
    using assms(6) out_name_allowed[of _ "set subs" files] unfolding chosen_def by blast
  from download_all_total[OF this, of root w2]
  obtain rs w3 where d: "download_all e root chosen w2 = (Inr rs, w3)" by blast
  obtain prn w4 where p: "prune e root (map fst (children w3)) [] w3 = (prn, w4)"
    by (cases "prune e root (map fst (children w3)) [] w3") auto
  have mallowed: "manifest_name \<in> allowed" by (simp add: allowed_def)
  have m2: "map_of (children w2) manifest_name \<noteq> Some Dir"
    using w2(2) assms(2,7) by (cases "dest_kind w") (simp_all add: is_dir_def)
  have m3: "map_of (children w3) manifest_name \<noteq> Some Dir"
  proof (cases "exists_child w2 manifest_name")
    case True
    from download_all_keeps[OF d True] m2 show ?thesis by simp
  next
    case False
    have "\<not> exists_child w3 manifest_name"
    proof
      assume "exists_child w3 manifest_name"
      from download_all_new_names[OF d this] False
      obtain fi where "fi \<in> set chosen" "out_name fi = manifest_name" by auto
      with out_name_allowed[of fi "set subs" files] show False by (simp add: chosen_def)
    qed
    then show ?thesis by (simp add: exists_child_def)
  qed
  from prune_map[OF p, of manifest_name] mallowed m3 have "\<not> is_dir w4 manifest_name"
    by (simp add: is_dir_def)
  with m d p show ?thesis by simp
qed


lemma run_summary:
  assumes "main e tgt path conf w = (Inr (), w')"
    and "map_of conf tgt = Some t"
    and "select_subjects (get_or (subjects t) []) = Inr subs"
    and "api e (get_or (article_id t) 13474629) = Inr files"
    and "select_files (set subs) files \<noteq> []"
    and "root = resolve e (get_or (save_in t) ''./fmri/test_attention'')"
    and "chosen = select_files (set subs) files"
  shows "\<exists>prn w3.
      map_of (children w') manifest_name =
        Some (File (json_dumps e
           \<lparr>figshare_article_id = get_or (article_id t) 13474629, doc_dest_root = root,
            S_to_sub = S_TO_SUB, sub_to_S = SUB_TO_S,
            downloaded = map (mrec_of e root w') chosen, pruned = prn\<rparr>))
    \<and> (\<forall>m. m \<noteq> manifest_name \<longrightarrow> map_of (children w') m =
           (if m \<notin> allowed \<and> \<not> locked e m then None else map_of (children w3) m))
    \<and> (\<forall>m. exists_child w3 m \<longleftrightarrow>
           (dest_kind w = Directory \<and> exists_child w m) \<or> m \<in> out_name ` set chosen)
    \<and> (\<forall>m. dest_kind w = Directory \<and> exists_child w m \<longrightarrow>
           map_of (children w3) m = map_of (children w) m)
    \<and> set prn = {p. p \<notin> allowed \<and> listed e w3 p}
    \<and> (\<forall>fi\<in>set chosen. \<forall>h. truthy (md5 fi) \<and> local_md5 e w' (out_name fi) = Some h \<and>
           Some h \<noteq> md5 fi \<longrightarrow>
           mismatch_line (the (name fi)) (the (md5 fi)) h \<in> set (stdout w'))
    \<and> (\<forall>m. map_of (children w3) m = Some Dir \<longrightarrow>
           dest_kind w = Directory \<and> map_of (children w) m = Some Dir)"
proof -
  obtain w2 rs w3 prn w4 where nf: "dest_kind w \<noteq> RegularFile"
    and w2: "children w2 = (if dest_kind w = Missing then [] else children w)"
    and d: "download_all e root chosen w2 = (Inr rs, w3)"
    and p: "prune e root (map fst (children w3)) [] w3 = (prn, w4)"
    and w': "w' = report root prn
                 (w4\<lparr>children := AList.update manifest_name
                    (File (json_dumps e
                       \<lparr>figshare_article_id = get_or (article_id t) 13474629,
                        doc_dest_root = root,
                        S_to_sub = S_TO_SUB, sub_to_S = SUB_TO_S,
                        downloaded = rs, pruned = prn\<rparr>)) (children w4)\<rparr>)"
    by (rule main_completed[OF assms(1-5), folded assms(6,7)]) (rule that)
  have ch: "\<And>fi. fi \<in> set chosen \<Longrightarrow> out_name fi \<in> allowed \<and> out_name fi \<noteq> manifest_name"
    using out_name_allowed[of _ "set subs" files] by (simp add: assms(7))
  have k2: "exists_child w2 m \<longleftrightarrow> dest_kind w = Directory \<and> exists_child w m" for m
    using nf w2 by (cases "dest_kind w") (simp_all add: exists_child_def)
  have c2: "dest_kind w = Directory \<Longrightarrow> children w2 = children w"
    using w2 by simp
  have m4: "map_of (children w4) m =
      (if m \<notin> allowed \<and> \<not> locked e m then None else map_of (children w3) m)" for m
  proof (cases "m \<in> set (map fst (children w3))")
    case True with prune_map[OF p, of m] show ?thesis by simp
  next
    case False
    then have "map_of (children w3) m = None" by (simp add: map_of_eq_None_iff)
    with prune_map[OF p, of m] show ?thesis by simp
  qed
  have cw': "children w' = AList.update manifest_name
                    (File (json_dumps e
                       \<lparr>figshare_article_id = get_or (article_id t) 13474629,
                        doc_dest_root = root,
                        S_to_sub = S_TO_SUB, sub_to_S = SUB_TO_S,
                        downloaded = rs, pruned = prn\<rparr>)) (children w4)"
    unfolding w' by (simp add: report_def)
  have mw': "map_of (children w') m = map_of (children w4) m" if "m \<noteq> manifest_name" for m
    unfolding cw' using that by (simp add: update_conv')
  have lm: "local_md5 e w' (out_name fi) = local_md5 e w3 (out_name fi)" if "fi \<in> set chosen" for fi
    using mw'[of "out_name fi"] m4[of "out_name fi"] ch[OF that] by (simp add: local_md5_def)
  have "rs = map (mrec_of e root w3) chosen" by (rule download_all_records[OF d])
  also have "\<dots> = map (mrec_of e root w') chosen"
    by (rule map_cong) (simp_all add: mrec_of_def lm)
  finally have rs: "rs = map (mrec_of e root w') chosen" .
  have 1: "map_of (children w') manifest_name =
        Some (File (json_dumps e
           \<lparr>figshare_article_id = get_or (article_id t) 13474629, doc_dest_root = root,
            S_to_sub = S_TO_SUB, sub_to_S = SUB_TO_S,
            downloaded = map (mrec_of e root w') chosen, pruned = prn\<rparr>))"
    unfolding cw' rs[symmetric] by (simp add: update_conv')
  have 2: "\<forall>m. m \<noteq> manifest_name \<longrightarrow> map_of (children w') m =
           (if m \<notin> allowed \<and> \<not> locked e m then None else map_of (children w3) m)"
    using mw' m4 by simp
  have 3: "\<forall>m. exists_child w3 m \<longleftrightarrow>
           (dest_kind w = Directory \<and> exists_child w m) \<or> m \<in> out_name ` set chosen"
  proof (intro allI iffI)
    fix m assume "exists_child w3 m"
    from download_all_new_names[OF d this] k2[of m]
    show "(dest_kind w = Directory \<and> exists_child w m) \<or> m \<in> out_name ` set chosen" by simp
  next
    fix m assume "(dest_kind w = Directory \<and> exists_child w m) \<or> m \<in> out_name ` set chosen"
    then show "exists_child w3 m"
    proof
      assume "dest_kind w = Directory \<and> exists_child w m"
      with k2[of m] have x: "exists_child w2 m" by simp
      from download_all_keeps[OF d x] x show ?thesis by (simp add: exists_child_def)
    next
      assume "m \<in> out_name ` set chosen"
      with download_all_present[OF d] show ?thesis by auto
    qed
  qed
  have 4: "\<forall>m. dest_kind w = Directory \<and> exists_child w m \<longrightarrow>
           map_of (children w3) m = map_of (children w) m"
  proof (intro allI impI)
    fix m assume a: "dest_kind w = Directory \<and> exists_child w m"
    with k2[of m] have x: "exists_child w2 m" by simp
    from download_all_keeps[OF d x] c2 a show "map_of (children w3) m = map_of (children w) m"
      by simp
  qed
  have "listed e w3 q \<Longrightarrow> q \<in> set (map fst (children w3))" for q
  proof -
    assume "listed e w3 q"
    then have "map_of (children w3) q \<noteq> None"
      by (cases "map_of (children w3) q") (simp_all add: listed_def)
    then show ?thesis by (simp add: map_of_eq_None_iff)
  qed
  then have "{q \<in> set (map fst (children w3)). q \<notin> allowed \<and> listed e w3 q}
      = {q. q \<notin> allowed \<and> listed e w3 q}" by blast
  with prune_names[OF p] have 5: "set prn = {p. p \<notin> allowed \<and> listed e w3 p}" by simp
  have so: "\<exists>ls. stdout w' = stdout w3 @ ls"
    using prune_frame[OF p] unfolding w' by (simp add: report_def)
  have 6: "\<forall>fi\<in>set chosen. \<forall>h. truthy (md5 fi) \<and> local_md5 e w' (out_name fi) = Some h \<and>
           Some h \<noteq> md5 fi \<longrightarrow>
           mismatch_line (the (name fi)) (the (md5 fi)) h \<in> set (stdout w')"
  proof (intro ballI allI impI)
    fix fi h assume fi: "fi \<in> set chosen"
      and a: "truthy (md5 fi) \<and> local_md5 e w' (out_name fi) = Some h \<and> Some h \<noteq> md5 fi"
    with lm[OF fi] have "local_md5 e w3 (out_name fi) = Some h" by simp
    from download_all_mismatch_logged[OF d fi _ this] a
    have "mismatch_line (the (name fi)) (the (md5 fi)) h \<in> set (stdout w3)" by simp
    with so show "mismatch_line (the (name fi)) (the (md5 fi)) h \<in> set (stdout w')" by auto
  qed
  have 7: "\<forall>m. map_of (children w3) m = Some Dir \<longrightarrow>
           dest_kind w = Directory \<and> map_of (children w) m = Some Dir"
  proof (intro allI impI)
    fix m assume "map_of (children w3) m = Some Dir"
    from download_all_dir[OF d this] have "map_of (children w2) m = Some Dir" .
    with nf w2 show "dest_kind w = Directory \<and> map_of (children w) m = Some Dir"
      by (cases "dest_kind w") simp_all
  qed
  show ?thesis
    by (rule exI[of _ prn], rule exI[of _ w3]) (intro conjI 1 2 3 4 5 6 7)
qed


section \<open>Entries of the same subject\<close>


lemma download_all_append:
  "download_all e root (xs @ ys) w =
     (case download_all e root xs w of
        (Inl err, w1) \<Rightarrow> (Inl err, w1)
      | (Inr r1, w1) \<Rightarrow>
          (case download_all e root ys w1 of
             (Inl err, w2) \<Rightarrow> (Inl err, w2)
           | (Inr r2, w2) \<Rightarrow> (Inr (r1 @ r2), w2)))"
  by (induction xs arbitrary: w) (simp_all split: prod.splits sum.splits)

lemma out_name_eq_iff:
  assumes "a \<in> set (select_files wanted files)" and "b \<in> set (select_files wanted files)"
  shows "out_name a = out_name b \<longleftrightarrow> sub_code a = sub_code b"
proof
  assume "sub_code a = sub_code b"
  with out_name_allowed[OF assms(1)] out_name_allowed[OF assms(2)]
  show "out_name a = out_name b" by (simp add: out_name_def)
next
  assume "out_name a = out_name b"
  with out_name_allowed[OF assms(1)] out_name_allowed[OF assms(2)]
  have "get_or (map_of SUB_TO_S (the (sub_code a))) ''Sx'' = get_or (map_of SUB_TO_S (the (sub_code b))) ''Sx''"
    by (simp add: out_name_def)
  moreover from out_name_allowed[OF assms(1)] out_name_allowed[OF assms(2)]
  obtain x y where "sub_code a = Some x" "x \<in> set (map fst SUB_TO_S)"
    "sub_code b = Some y" "y \<in> set (map fst SUB_TO_S)" by blast
  ultimately show "sub_code a = sub_code b" using short_code_inj[of x y] by simp
qed

text \<open>
  Claim C10. When two kept catalog entries derive the same subject code and the loop
  completes, each has its own record in the manifest, both with the same \<^verbatim>\<open>saved_as\<close>
  path; the only \<^verbatim>\<open>urlretrieve\<close> request of the loop for that path is the one for the first
  entry of that code (none when the path existed before the loop); when the later entry
  is reached the path exists, so its processing makes no request and leaves the directory
  as it is; and its \<^verbatim>\<open>md5_local\<close> is that of the first entry, the digest of the file at
  that path.
\<close>
theorem same_subject_is_fetched_once:
  assumes "chosen = select_files wanted files"
    and "download_all e root chosen w = (Inr rs, w')"
    and "i < j" and "j < length chosen"
    and "sub_code (chosen ! i) = sub_code (chosen ! j)"
    and "\<forall>k<i. sub_code (chosen ! k) \<noteq> sub_code (chosen ! i)"
  shows "length rs = length chosen \<and>
     api_name (rs ! i) = the (name (chosen ! i)) \<and>
     api_name (rs ! j) = the (name (chosen ! j)) \<and>
     saved_as (rs ! i) = joinpath root (out_name (chosen ! i)) \<and>
     saved_as (rs ! j) = saved_as (rs ! i) \<and>
     md5_local (rs ! i) = local_md5 e w' (out_name (chosen ! i)) \<and>
     md5_local (rs ! j) = md5_local (rs ! i) \<and>
     retrievals (out_name (chosen ! i)) (http w') =
       retrievals (out_name (chosen ! i)) (http w) @
         (if exists_child w (out_name (chosen ! i)) then []
          else [the (download_url (chosen ! i))]) \<and>
     (\<exists>rs1 w1. download_all e root (take j chosen) w = (Inr rs1, w1) \<and>
        exists_child w1 (out_name (chosen ! j)) \<and>
        http (snd (process_file e root (chosen ! j) w1)) = http w1 \<and>
        children (snd (process_file e root (chosen ! j) w1)) = children w1)"
proof -
  from assms(3,4) have il: "i < length chosen" by simp
  have mi: "chosen ! i \<in> set chosen" and mj: "chosen ! j \<in> set chosen"
    using il assms(4) by simp_all
  have oe: "out_name a = out_name b \<longleftrightarrow> sub_code a = sub_code b"
    if "a \<in> set chosen" "b \<in> set chosen" for a b
    using that out_name_eq_iff[of a wanted files b] by (simp add: assms(1))
  from oe[OF mj mi] assms(5) have same: "out_name (chosen ! j) = out_name (chosen ! i)" by simp
  note rs = download_all_records[OF assms(2)]
  have len: "length rs = length chosen" by (simp add: rs)
  have ri: "rs ! i = mrec_of e root w' (chosen ! i)" and rj: "rs ! j = mrec_of e root w' (chosen ! j)"
    using il assms(4) by (simp_all add: rs)
  have first: "find (\<lambda>fi. out_name fi = out_name (chosen ! i)) chosen = Some (chosen ! i)"
  proof -
    have "\<forall>k<i. out_name (chosen ! k) \<noteq> out_name (chosen ! i)"
    proof (intro allI impI)
      fix k assume k: "k < i"
      with il have "chosen ! k \<in> set chosen" by simp
      from oe[OF this mi] assms(6) k show "out_name (chosen ! k) \<noteq> out_name (chosen ! i)" by simp
    qed
    with il show ?thesis by (auto simp: find_Some_iff)
  qed
  have ret: "retrievals (out_name (chosen ! i)) (http w') =
       retrievals (out_name (chosen ! i)) (http w) @
         (if exists_child w (out_name (chosen ! i)) then []
          else [the (download_url (chosen ! i))])"
    using download_all_retrievals[OF assms(2), of "out_name (chosen ! i)"] first by simp
  have "download_all e root (take j chosen @ drop j chosen) w = (Inr rs, w')"
    using assms(2) by simp
  then obtain rs1 w1 where t: "download_all e root (take j chosen) w = (Inr rs1, w1)"
    unfolding download_all_append by (auto split: prod.splits sum.splits)
  have "chosen ! i \<in> set (take j chosen)"
    using assms(3,4) by (auto simp: in_set_conv_nth intro!: exI[of _ i])
  from download_all_present[OF t this] same
  have x: "exists_child w1 (out_name (chosen ! j))" by simp
  from out_name_allowed[of "chosen ! j" wanted files] mj
  obtain S where S: "short_code (chosen ! j) = Some S" by (auto simp: assms(1))
  from x S have "exists_child w1 (S @ ''_attention.h5'')" by (simp add: out_name_def)
  from process_file_skips[OF S this, of e root]
  have skip: "http (snd (process_file e root (chosen ! j) w1)) = http w1 \<and>
        children (snd (process_file e root (chosen ! j) w1)) = children w1" .
  from len ri rj same ret t x skip show ?thesis
    by (simp add: mrec_of_def)
qed


theorem same_subject_is_fetched_once_witness:
  "md5_local (projr (fst (download_all (ex_env ex_twins) ''/data/fmri''
       (select_files (set [''sub-01'']) ex_twins) ex_world)) ! 1) = Some ''md5:abc'' \<and>
   retrievals ''S4_attention.h5'' (http (snd (download_all (ex_env ex_twins) ''/data/fmri''
       (select_files (set [''sub-01'']) ex_twins) ex_world))) = [''http://x/1'']"
proof -
  let ?c = "select_files (set [''sub-01'']) ex_twins"
  let ?res = "download_all (ex_env ex_twins) ''/data/fmri'' ?c ex_world"
  have d: "?res = (Inr (projr (fst ?res)), snd ?res)" by code_simp
  have j: "(1::nat) < length ?c" by code_simp
  have s: "sub_code (?c ! 0) = sub_code (?c ! 1)" by code_simp
  have k: "\<forall>k<(0::nat). sub_code (?c ! k) \<noteq> sub_code (?c ! 0)" by simp
  have n: "out_name (?c ! 0) = ''S4_attention.h5''" by code_simp
  have l: "local_md5 (ex_env ex_twins) (snd ?res) ''S4_attention.h5'' = Some ''md5:abc''" by code_simp
  have r: "retrievals ''S4_attention.h5'' (http ex_world) @
         (if exists_child ex_world ''S4_attention.h5'' then []
          else [the (download_url (?c ! 0))]) = [''http://x/1'']" by code_simp
  from same_subject_is_fetched_once[OF refl d zero_less_one j s k] n l r
  show ?thesis by simp
qed

section \<open>The completed run\<close>


text \<open>
  Claim C5. A digest that differs from the remote one does not halt the run. Whatever the
  \<^verbatim>\<open>md5\<close> fields of the catalog say, a run in which every kept entry has a
  \<^verbatim>\<open>download_url\<close> that answers and the manifest path is no directory returns normally and
  writes the manifest; the manifest has one record for every kept entry, with the remote
  digest of the entry as \<^verbatim>\<open>md5_remote\<close> and the digest of the saved file as \<^verbatim>\<open>md5_local\<close>;
  and for every entry whose remote digest is present and differs from the local one the line
  reporting the mismatch has been printed.
\<close>
theorem md5_mismatch_is_not_fatal:
  assumes "map_of conf tgt = Some t" and "dest_kind w \<noteq> RegularFile"
    and "select_subjects (get_or (subjects t) []) = Inr subs"
    and "api e (get_or (article_id t) 13474629) = Inr files"
    and "chosen = select_files (set subs) files" and "chosen \<noteq> []"
    and "\<forall>fi\<in>set chosen. \<exists>u. download_url fi = Some u \<and> remote e u \<noteq> None"
    and "dest_kind w = Directory \<longrightarrow> \<not> is_dir w manifest_name"
    and "root = resolve e (get_or (save_in t) ''./fmri/test_attention'')"
  shows "\<exists>w' doc. main e tgt path conf w = (Inr (), w') \<and>
     map_of (children w') manifest_name = Some (File (json_dumps e doc)) \<and>
     downloaded doc = map (mrec_of e root w') chosen \<and>
     (\<forall>fi\<in>set chosen.
        md5_remote (mrec_of e root w' fi) = md5 fi \<and>
        md5_local (mrec_of e root w' fi) = local_md5 e w' (out_name fi)) \<and>
     (\<forall>fi\<in>set chosen. \<forall>h.
        truthy (md5 fi) \<and> local_md5 e w' (out_name fi) = Some h \<and> Some h \<noteq> md5 fi \<longrightarrow>
        mismatch_line (the (name fi)) (the (md5 fi)) h \<in> set (stdout w'))"
proof -
  from main_total[OF assms(1-4) assms(6)[unfolded assms(5)] assms(7)[unfolded assms(5)] assms(8), of path]
  obtain w' where m: "main e tgt path conf w = (Inr (), w')" by blast
  from run_summary[OF m assms(1,3,4) assms(6)[unfolded assms(5)] assms(9) assms(5)]
  obtain prn where
    1: "map_of (children w') manifest_name =
        Some (File (json_dumps e
           \<lparr>figshare_article_id = get_or (article_id t) 13474629, doc_dest_root = root,
            S_to_sub = S_TO_SUB, sub_to_S = SUB_TO_S,
            downloaded = map (mrec_of e root w') chosen, pruned = prn\<rparr>))"
    and 6: "\<forall>fi\<in>set chosen. \<forall>h. truthy (md5 fi) \<and> local_md5 e w' (out_name fi) = Some h \<and>
           Some h \<noteq> md5 fi \<longrightarrow>
           mismatch_line (the (name fi)) (the (md5 fi)) h \<in> set (stdout w')"
    by blast
  define doc where "doc = \<lparr>figshare_article_id = get_or (article_id t) 13474629, doc_dest_root = root,
            S_to_sub = S_TO_SUB, sub_to_S = SUB_TO_S,
            downloaded = map (mrec_of e root w') chosen, pruned = prn\<rparr>"
  have d: "downloaded doc = map (mrec_of e root w') chosen" by (simp add: doc_def)
  have r: "\<forall>fi\<in>set chosen.
        md5_remote (mrec_of e root w' fi) = md5 fi \<and>
        md5_local (mrec_of e root w' fi) = local_md5 e w' (out_name fi)"
    by (simp add: mrec_of_def)
  show ?thesis
    by (rule exI[of _ w'], rule exI[of _ doc]) (intro conjI m 1[folded doc_def] d r 6)
qed

theorem md5_mismatch_is_not_fatal_witness:
  "fst (main (ex_env ex_catalog) ''fmri_attention'' ''files.json'' (ex_conf []) ex_world) = Inr () \<and>
   mismatch_line ''sub-01_attention_vc.h5'' ''zz'' ''md5:abc''
     \<in> set (stdout (snd (main (ex_env ex_catalog) ''fmri_attention'' ''files.json'' (ex_conf [])
                           ex_world)))"
proof -
  let ?e = "ex_env ex_catalog"
  let ?t = "\<lparr>save_in = Some ''/data/fmri'', article_id = None, subjects = Some []\<rparr>"
  let ?subs = "[''sub-06'', ''sub-07'', ''sub-04'', ''sub-01'']"
  let ?fi = "(ex_entry ''sub-01_attention_vc.h5'' (Some ''http://x/1'') None (Some ''zz''))
               \<lparr>sub_code := Some ''sub-01'', short_code := Some ''S4''\<rparr>"
  let ?m = "main ?e ''fmri_attention'' ''files.json'' (ex_conf []) ex_world"
  have a: "map_of (ex_conf []) ''fmri_attention'' = Some ?t" by (simp add: ex_conf_def)
  have b: "dest_kind ex_world \<noteq> RegularFile" by (simp add: ex_world_def)
  have c: "select_subjects (get_or (subjects ?t) []) = Inr ?subs" by code_simp
  have d: "api ?e (get_or (article_id ?t) 13474629) = Inr ex_catalog" by (simp add: ex_env_def)
  have f: "[?fi] = select_files (set ?subs) ex_catalog" by code_simp
  have g: "[?fi] \<noteq> []" by simp
  have h: "\<forall>fi\<in>set [?fi]. \<exists>u. download_url fi = Some u \<and> remote ?e u \<noteq> None"
    by (simp add: ex_entry_def ex_env_def)
  have i: "dest_kind ex_world = Directory \<longrightarrow> \<not> is_dir ex_world manifest_name" by code_simp
  from md5_mismatch_is_not_fatal[OF a b c d f g h i refl, of "''files.json''"]
  obtain w' where m: "?m = (Inr (), w')"
    and l: "\<forall>fi\<in>set [?fi]. \<forall>h.
        truthy (md5 fi) \<and> local_md5 ?e w' (out_name fi) = Some h \<and> Some h \<noteq> md5 fi \<longrightarrow>
        mismatch_line (the (name fi)) (the (md5 fi)) h \<in> set (stdout w')"
    by blast
  from m have w': "w' = snd ?m" by simp
  have x: "truthy (md5 ?fi) \<and> local_md5 ?e (snd ?m) (out_name ?fi) = Some ''md5:abc'' \<and>
      Some ''md5:abc'' \<noteq> md5 ?fi" by code_simp
  from l[unfolded w', rule_format, of ?fi "''md5:abc''"] x
  have "mismatch_line (the (name ?fi)) (the (md5 ?fi)) ''md5:abc'' \<in> set (stdout (snd ?m))"
    by simp
  moreover have "name ?fi = Some ''sub-01_attention_vc.h5''" "md5 ?fi = Some ''zz''"
    by (simp_all add: ex_entry_def)
  ultimately show ?thesis using m by simp
qed

text \<open>
  Claim C1, as it stands, fails where the operating system refuses a removal: the run
  completes with one matching file, the stray file \<^verbatim>\<open>keep\<close> is outside the allowed set, and
  it is still in the destination directory afterwards and not in the manifest's
  \<^verbatim>\<open>pruned\<close> list, because the loop passes over the failed \<^verbatim>\<open>unlink\<close>.
\<close>
theorem locked_stray_file_survives:
  "fst (main (ex_env ex_catalog) ''fmri_attention'' ''files.json'' (ex_conf []) ex_world) = Inr () \<and>
   select_files (set [''sub-06'', ''sub-07'', ''sub-04'', ''sub-01'']) ex_catalog \<noteq> [] \<and>
   ''keep'' \<notin> allowed \<and>
   map_of (children (snd (main (ex_env ex_catalog) ''fmri_attention'' ''files.json'' (ex_conf [])
                            ex_world))) ''keep'' = Some (File ''y'') \<and>
   map_of (children (snd (main (ex_env ex_catalog) ''fmri_attention'' ''files.json'' (ex_conf [])
                            ex_world))) manifest_name =
     Some (File (json_dumps (ex_env ex_catalog)
       \<lparr>figshare_article_id = 13474629, doc_dest_root = ''/data/fmri'',
        S_to_sub = S_TO_SUB, sub_to_S = SUB_TO_S,
        downloaded =
          [\<lparr>api_name = ''sub-01_attention_vc.h5'', saved_as = ''/data/fmri/S4_attention.h5'',
            subject_S = ''S4'', rec_download_url = ''http://x/1'', md5_remote = Some ''zz'',
            md5_local = Some ''md5:abc''\<rparr>],
        pruned = [''stray'', ''old'']\<rparr>))"
  by code_simp

lemma allowed_eq:
  "allowed = {''attention_manifest.json'', ''S1_attention.h5'', ''S2_attention.h5'',
              ''S3_attention.h5'', ''S4_attention.h5''}"
  by (simp add: allowed_def S_TO_SUB_def manifest_name_def)

lemma completed_run_children:
  assumes "main e tgt path conf w = (Inr (), w')"
    and "map_of conf tgt = Some t"
    and "select_subjects (get_or (subjects t) []) = Inr subs"
    and "api e (get_or (article_id t) 13474629) = Inr files"
    and "chosen = select_files (set subs) files" and "chosen \<noteq> []"
  shows "\<exists>doc.
     map_of (children w') manifest_name = Some (File (json_dumps e doc)) \<and>
     (\<forall>n. exists_child w' n \<longrightarrow> n \<in> allowed \<or> locked e n) \<and>
     (\<forall>n. exists_child w' n \<longrightarrow>
        n = manifest_name \<or> n \<in> out_name ` set chosen \<or>
        (dest_kind w = Directory \<and> exists_child w n)) \<and>
     (\<forall>fi\<in>set chosen. out_name fi \<in> allowed \<and>
        ((\<exists>b. map_of (children w') (out_name fi) = Some (File b)) \<or>
         (dest_kind w = Directory \<and> map_of (children w) (out_name fi) = Some Dir \<and>
          map_of (children w') (out_name fi) = Some Dir))) \<and>
     (\<forall>n. dest_kind w = Directory \<and> exists_child w n \<and> n \<notin> allowed \<and> \<not> locked e n \<longrightarrow>
        \<not> exists_child w' n \<and> n \<in> set (pruned doc)) \<and>
     (\<forall>n b. dest_kind w = Directory \<and> map_of (children w) n = Some (File b) \<and>
        n \<notin> allowed \<and> locked e n \<longrightarrow>
        map_of (children w') n = Some (File b) \<and> n \<notin> set (pruned doc)) \<and>
     (\<forall>n\<in>set (pruned doc). n \<notin> allowed \<and> dest_kind w = Directory \<and> exists_child w n)"
proof -
  define root where "root = resolve e (get_or (save_in t) ''./fmri/test_attention'')"
  from run_summary[OF assms(1-4) assms(6)[unfolded assms(5)] root_def assms(5)]
  obtain prn w3 where
    1: "map_of (children w') manifest_name =
        Some (File (json_dumps e
           \<lparr>figshare_article_id = get_or (article_id t) 13474629, doc_dest_root = root,
            S_to_sub = S_TO_SUB, sub_to_S = SUB_TO_S,
            downloaded = map (mrec_of e root w') chosen, pruned = prn\<rparr>))"
    and 2: "\<And>m. m \<noteq> manifest_name \<Longrightarrow> map_of (children w') m =
           (if m \<notin> allowed \<and> \<not> locked e m then None else map_of (children w3) m)"
    and 3: "\<And>m. exists_child w3 m \<longleftrightarrow>
           (dest_kind w = Directory \<and> exists_child w m) \<or> m \<in> out_name ` set chosen"
    and 4: "\<And>m. dest_kind w = Directory \<and> exists_child w m \<Longrightarrow>
           map_of (children w3) m = map_of (children w) m"
    and 5: "set prn = {p. p \<notin> allowed \<and> listed e w3 p}"
    and 7: "\<And>m. map_of (children w3) m = Some Dir \<Longrightarrow>
           dest_kind w = Directory \<and> map_of (children w) m = Some Dir"
    by blast
  define doc where "doc = \<lparr>figshare_article_id = get_or (article_id t) 13474629, doc_dest_root = root,
            S_to_sub = S_TO_SUB, sub_to_S = SUB_TO_S,
            downloaded = map (mrec_of e root w') chosen, pruned = prn\<rparr>"
  have pd: "pruned doc = prn" by (simp add: doc_def)
  have ma: "manifest_name \<in> allowed" by (simp add: allowed_def)
  have ch: "\<And>fi. fi \<in> set chosen \<Longrightarrow> out_name fi \<in> allowed \<and> out_name fi \<noteq> manifest_name"
    using out_name_allowed[of _ "set subs" files] by (simp add: assms(5))
  have a: "map_of (children w') manifest_name = Some (File (json_dumps e doc))"
    using 1 by (simp add: doc_def)
  have b: "\<forall>n. exists_child w' n \<longrightarrow> n \<in> allowed \<or> locked e n"
  proof (intro allI impI)
    fix n assume x: "exists_child w' n"
    show "n \<in> allowed \<or> locked e n"
    proof (cases "n = manifest_name")
      case True with ma show ?thesis by simp
    next
      case False
      from 2[OF False] x show ?thesis by (auto simp: exists_child_def split: if_splits)
    qed
  qed
  have c: "\<forall>n. exists_child w' n \<longrightarrow>
        n = manifest_name \<or> n \<in> out_name ` set chosen \<or>
        (dest_kind w = Directory \<and> exists_child w n)"
  proof (intro allI impI)
    fix n assume x: "exists_child w' n"
    show "n = manifest_name \<or> n \<in> out_name ` set chosen \<or>
        (dest_kind w = Directory \<and> exists_child w n)"
    proof (cases "n = manifest_name")
      case True then show ?thesis by simp
    next
      case False
      from 2[OF False] x have "exists_child w3 n"
        by (auto simp: exists_child_def split: if_splits)
      with 3[of n] show ?thesis by blast
    qed
  qed
  have d: "\<forall>fi\<in>set chosen. out_name fi \<in> allowed \<and>
        ((\<exists>b. map_of (children w') (out_name fi) = Some (File b)) \<or>
         (dest_kind w = Directory \<and> map_of (children w) (out_name fi) = Some Dir \<and>
          map_of (children w') (out_name fi) = Some Dir))"
  proof
    fix fi assume fi: "fi \<in> set chosen"
    from 3[of "out_name fi"] fi have "exists_child w3 (out_name fi)" by blast
    then obtain nd where nd: "map_of (children w3) (out_name fi) = Some nd"
      by (auto simp: exists_child_def)
    from 2[of "out_name fi"] ch[OF fi] nd
    have m': "map_of (children w') (out_name fi) = Some nd" by simp
    have "(\<exists>b. map_of (children w') (out_name fi) = Some (File b)) \<or>
         (dest_kind w = Directory \<and> map_of (children w) (out_name fi) = Some Dir \<and>
          map_of (children w') (out_name fi) = Some Dir)"
    proof (cases nd)
      case (File b) with m' show ?thesis by simp
    next
      case Dir
      with 7[of "out_name fi"] nd m' show ?thesis by simp
    qed
    with ch[OF fi] show "out_name fi \<in> allowed \<and>
        ((\<exists>b. map_of (children w') (out_name fi) = Some (File b)) \<or>
         (dest_kind w = Directory \<and> map_of (children w) (out_name fi) = Some Dir \<and>
          map_of (children w') (out_name fi) = Some Dir))" by simp
  qed
  have f: "\<forall>n. dest_kind w = Directory \<and> exists_child w n \<and> n \<notin> allowed \<and> \<not> locked e n \<longrightarrow>
        \<not> exists_child w' n \<and> n \<in> set (pruned doc)"
  proof (intro allI impI)
    fix n assume h: "dest_kind w = Directory \<and> exists_child w n \<and> n \<notin> allowed \<and> \<not> locked e n"
    with ma have ne: "n \<noteq> manifest_name" by auto
    from 2[OF ne] h have gone: "\<not> exists_child w' n" by (simp add: exists_child_def)
    from 3[of n] h have "map_of (children w3) n \<noteq> None" by (simp add: exists_child_def)
    with h have "listed e w3 n"
      by (cases "map_of (children w3) n") (auto simp: listed_def split: node.splits)
    with 5 h pd have "n \<in> set (pruned doc)" by simp
    with gone show "\<not> exists_child w' n \<and> n \<in> set (pruned doc)" by simp
  qed
  have g: "\<forall>n b. dest_kind w = Directory \<and> map_of (children w) n = Some (File b) \<and>
        n \<notin> allowed \<and> locked e n \<longrightarrow>
        map_of (children w') n = Some (File b) \<and> n \<notin> set (pruned doc)"
  proof (intro allI impI)
    fix n b assume h: "dest_kind w = Directory \<and> map_of (children w) n = Some (File b) \<and>
        n \<notin> allowed \<and> locked e n"
    with ma have ne: "n \<noteq> manifest_name" by auto
    from h have "dest_kind w = Directory \<and> exists_child w n" by (simp add: exists_child_def)
    from 4[OF this] h have m3: "map_of (children w3) n = Some (File b)" by simp
    with 2[OF ne] h have "map_of (children w') n = Some (File b)" by simp
    moreover from m3 h have "\<not> listed e w3 n" by (simp add: listed_def)
    with 5 pd have "n \<notin> set (pruned doc)" by simp
    ultimately show "map_of (children w') n = Some (File b) \<and> n \<notin> set (pruned doc)" by simp
  qed
  have i: "\<forall>n\<in>set (pruned doc). n \<notin> allowed \<and> dest_kind w = Directory \<and> exists_child w n"
  proof
    fix n assume "n \<in> set (pruned doc)"
    with 5 pd have na: "n \<notin> allowed" and l: "listed e w3 n" by simp_all
    from l have "exists_child w3 n"
      by (cases "map_of (children w3) n") (simp_all add: listed_def exists_child_def)
    with 3[of n] have "(dest_kind w = Directory \<and> exists_child w n) \<or> n \<in> out_name ` set chosen"
      by simp
    with ch na show "n \<notin> allowed \<and> dest_kind w = Directory \<and> exists_child w n" by auto
  qed
  show ?thesis
    by (rule exI[of _ doc]) (intro conjI a b c d f g i)
qed

text \<open>
  Claim C1, amended. After a completed run that found at least one matching file, every
  child of the destination directory has one of the five names \<^verbatim>\<open>S1_attention.h5\<close>,
  \<^verbatim>\<open>S2_attention.h5\<close>, \<^verbatim>\<open>S3_attention.h5\<close>, \<^verbatim>\<open>S4_attention.h5\<close>, \<^verbatim>\<open>attention_manifest.json\<close>
  or is one whose removal the operating system refuses, and is the manifest, the file of a
  kept entry or a child that was there before; the path of every kept entry has one of the
  five names and holds a regular file, unless a directory of that name was there before the
  run, which is then left as it is; every child that was there before, has none of the five
  names and can be removed is gone and named in the manifest's \<^verbatim>\<open>pruned\<close> list; a regular
  file with none of the five names whose removal is refused stays as it was and is not
  named; the \<^verbatim>\<open>pruned\<close> list names only former children with none of the five names; and
  the manifest is written after the pruning, with that list.
\<close>
theorem prune_leaves_allowed_or_locked:
  assumes "main e tgt path conf w = (Inr (), w')"
    and "map_of conf tgt = Some t"
    and "select_subjects (get_or (subjects t) []) = Inr subs"
    and "api e (get_or (article_id t) 13474629) = Inr files"
    and "chosen = select_files (set subs) files" and "chosen \<noteq> []"
  shows "\<exists>doc.
     map_of (children w') ''attention_manifest.json'' = Some (File (json_dumps e doc)) \<and>
     (\<forall>n. exists_child w' n \<longrightarrow>
        n \<in> {''attention_manifest.json'', ''S1_attention.h5'', ''S2_attention.h5'',
             ''S3_attention.h5'', ''S4_attention.h5''} \<or> locked e n) \<and>
     (\<forall>n. exists_child w' n \<longrightarrow>
        n = ''attention_manifest.json'' \<or> n \<in> out_name ` set chosen \<or>
        (dest_kind w = Directory \<and> exists_child w n)) \<and>
     (\<forall>fi\<in>set chosen.
        out_name fi \<in> {''attention_manifest.json'', ''S1_attention.h5'', ''S2_attention.h5'',
                       ''S3_attention.h5'', ''S4_attention.h5''} \<and>
        ((\<exists>b. map_of (children w') (out_name fi) = Some (File b)) \<or>
         (dest_kind w = Directory \<and> map_of (children w) (out_name fi) = Some Dir \<and>
          map_of (children w') (out_name fi) = Some Dir))) \<and>
     (\<forall>n. dest_kind w = Directory \<and> exists_child w n \<and>
        n \<notin> {''attention_manifest.json'', ''S1_attention.h5'', ''S2_attention.h5'',
             ''S3_attention.h5'', ''S4_attention.h5''} \<and> \<not> locked e n \<longrightarrow>
        \<not> exists_child w' n \<and> n \<in> set (pruned doc)) \<and>
     (\<forall>n b. dest_kind w = Directory \<and> map_of (children w) n = Some (File b) \<and>
        n \<notin> {''attention_manifest.json'', ''S1_attention.h5'', ''S2_attention.h5'',
             ''S3_attention.h5'', ''S4_attention.h5''} \<and> locked e n \<longrightarrow>
        map_of (children w') n = Some (File b) \<and> n \<notin> set (pruned doc)) \<and>
     (\<forall>n\<in>set (pruned doc).
        n \<notin> {''attention_manifest.json'', ''S1_attention.h5'', ''S2_attention.h5'',
             ''S3_attention.h5'', ''S4_attention.h5''} \<and>
        dest_kind w = Directory \<and> exists_child w n)"
  by (rule completed_run_children[OF assms, unfolded allowed_eq manifest_name_def])

lemma ex_conj5: "\<exists>x. A x \<and> B x \<and> C x \<and> D x \<and> F x \<and> R x \<Longrightarrow> \<exists>x. F x"
  by blast

theorem prune_leaves_allowed_or_locked_witness:
  "\<not> exists_child (snd (main (ex_env ex_catalog) ''fmri_attention'' ''files.json'' (ex_conf [])
                           ex_world)) ''stray''"
proof -
  let ?e = "ex_env ex_catalog"
  let ?t = "\<lparr>save_in = Some ''/data/fmri'', article_id = None, subjects = Some []\<rparr>"
  let ?subs = "[''sub-06'', ''sub-07'', ''sub-04'', ''sub-01'']"
  let ?m = "main ?e ''fmri_attention'' ''files.json'' (ex_conf []) ex_world"
  have m: "?m = (Inr (), snd ?m)" by code_simp
  have a: "map_of (ex_conf []) ''fmri_attention'' = Some ?t" by (simp add: ex_conf_def)
  have c: "select_subjects (get_or (subjects ?t) []) = Inr ?subs" by code_simp
  have d: "api ?e (get_or (article_id ?t) 13474629) = Inr ex_catalog" by (simp add: ex_env_def)
  have g: "select_files (set ?subs) ex_catalog \<noteq> []" by code_simp
  have s: "dest_kind ex_world = Directory \<and> exists_child ex_world ''stray'' \<and>
     ''stray'' \<notin> {''attention_manifest.json'', ''S1_attention.h5'', ''S2_attention.h5'',
             ''S3_attention.h5'', ''S4_attention.h5''} \<and> \<not> locked ?e ''stray''" by code_simp
  have "\<exists>doc::manifest_doc. \<forall>n. dest_kind ex_world = Directory \<and> exists_child ex_world n \<and>
        n \<notin> {''attention_manifest.json'', ''S1_attention.h5'', ''S2_attention.h5'',
             ''S3_attention.h5'', ''S4_attention.h5''} \<and> \<not> locked ?e n \<longrightarrow>
        \<not> exists_child (snd ?m) n \<and> n \<in> set (pruned doc)" (is "\<exists>doc::manifest_doc. ?F doc")
    by (rule ex_conj5[OF prune_leaves_allowed_or_locked[OF m a c d refl g]])
  then obtain doc where f: "?F doc" ..
  from f[rule_format, OF s] show ?thesis by (rule conjunct1)
qed

end
